theory Spec2Isabelle
  imports Main "HOL-Library.Word" "HOL-Library.Sublist"
begin

section \<open>OSM Area Tools: \<open>oat_create_areas\<close>\<close>

text \<open>
  A shallow embedding of \<^verbatim>\<open>src/oat_create_areas.cpp\<close>. The program is the command
  line driver of the area assembly pipeline: it parses its options, opens the input
  twice (two passes), feeds a multipolygon collector, and writes the assembled areas to
  an OGR layer. What the driver itself defines is embedded from the source: the class
  \<^verbatim>\<open>OutputOGR\<close>, the class \<^verbatim>\<open>DummyAssembler\<close>, the class \<^verbatim>\<open>optional_output\<close>, the
  functions \<^verbatim>\<open>entity_bits\<close>, \<^verbatim>\<open>read_relations\<close>, \<^verbatim>\<open>show_incomplete_relations\<close> and
  \<^verbatim>\<open>main\<close>. Everything observable that the program does is an \<open>event\<close>; a run is the
  list of its events in order, with the way the run ended.
\<close>

subsection \<open>Identifiers and their decimal form\<close>

text \<open>\<^verbatim>\<open>osmium::object_id_type\<close> is \<^verbatim>\<open>int64_t\<close>: a 64-bit word, read signed.\<close>

type_synonym object_id_type = "64 word"

definition digit_char :: "nat \<Rightarrow> char" where
  "digit_char n = char_of (48 + n)"

function string_of_nat :: "nat \<Rightarrow> string" where
  "string_of_nat n =
     (if n < 10 then [digit_char n]
      else string_of_nat (n div 10) @ [digit_char (n mod 10)])"
  by pat_completeness auto
termination
  by (relation "measure (\<lambda>n. n)") auto

declare string_of_nat.simps [simp del]

definition string_of_int :: "int \<Rightarrow> string" where
  "string_of_int i =
     (if i < 0 then CHR ''-'' # string_of_nat (nat (- i)) else string_of_nat (nat i))"

text \<open>What \<^verbatim>\<open>std::cerr << area.id()\<close> prints for a 64-bit signed identifier.\<close>

definition show_id :: "object_id_type \<Rightarrow> string" where
  "show_id x = string_of_int (sint x)"

subsection \<open>OSM entities\<close>

text \<open>The entity types of a type mask (\<^verbatim>\<open>osmium::osm_entity_bits\<close>).\<close>

datatype entity_bit = node | way | relation

type_synonym Location = "int \<times> int"

text \<open>A node reference of a way: the node's id and, once resolved, its location.\<close>

type_synonym NodeRef = "object_id_type \<times> Location option"

type_synonym tags = "(string \<times> string) list"

record Node =
  node_id :: object_id_type
  node_location :: "Location option"

record Way =
  way_id :: object_id_type
  way_tags :: tags
  way_nodes :: "NodeRef list"

record Member =
  member_ref :: object_id_type
  member_type :: entity_bit
  member_role :: string

record Relation =
  relation_id :: object_id_type
  relation_tags :: tags
  relation_members :: "Member list"

datatype entity = a_node Node | a_way Way | a_relation Relation

fun entity_type :: "entity \<Rightarrow> entity_bit" where
  "entity_type (a_node n) = node"
| "entity_type (a_way w) = way"
| "entity_type (a_relation r) = relation"

subsection \<open>Areas, features and exceptions\<close>

text \<open>
  Of an \<^verbatim>\<open>osmium::Area\<close> the source reads three things: \<^verbatim>\<open>area.id()\<close>,
  \<^verbatim>\<open>area.from_way()\<close> and \<^verbatim>\<open>area.orig_id()\<close>.
\<close>

record Area =
  area_id :: object_id_type
  from_way :: bool
  orig_id :: object_id_type

text \<open>An OGR geometry, as the geometry factory returns it, held as its WKT.\<close>

type_synonym OGRGeometry = string

text \<open>
  A feature of the layer \<^verbatim>\<open>areas\<close>, whose fields the constructor of \<^verbatim>\<open>OutputOGR\<close>
  declares: \<^verbatim>\<open>id\<close> (\<^verbatim>\<open>OFTInteger\<close>), \<^verbatim>\<open>valid\<close>, \<^verbatim>\<open>source\<close> and \<^verbatim>\<open>orig_id\<close>
  (\<^verbatim>\<open>OFTInteger\<close>). The two integer fields are set from a \<^verbatim>\<open>static_cast<int32_t>\<close>.
\<close>

record Feature =
  field_geom :: OGRGeometry
  field_id :: "32 word"
  field_valid :: bool
  field_source :: string
  field_orig_id :: "32 word"

text \<open>
  The exceptions that the program's collaborators throw. The source names one of them,
  \<^verbatim>\<open>osmium::geometry_error\<close>, in its only \<^verbatim>\<open>catch\<close> clause; the others stand for what
  the OGR wrapper (\<^verbatim>\<open>gdal_error\<close>), the reader (\<^verbatim>\<open>system_error\<close>) and the index
  factory (\<^verbatim>\<open>map_factory_error\<close>) throw.
\<close>

datatype exn =
    geometry_error string
  | gdal_error string
  | system_error string
  | map_factory_error string

text \<open>Streams that the program writes to.\<close>

datatype ostream_ptr = nullptr | std_cout | new_ofstream string bool

text \<open>
  \<open>new_ofstream filename is_open\<close> is the result of
  \<^verbatim>\<open>new std::ofstream{filename}\<close>: constructing the stream never throws, and a file
  that could not be opened leaves the stream in its failed state (\<open>is_open = False\<close>),
  where every later write is dropped.
\<close>

text \<open>
  The problem reporters that \<^verbatim>\<open>main\<close> constructs: one on a stream, one on the
  dataset of the given name.
\<close>

datatype reporter =
    ProblemReporterStream ostream_ptr
  | ProblemReporterOGR string

text \<open>
  The events of a run, in the order in which the program produces them: a piece written
  to the verbose output (and \<open>vout_value\<close>, a number or the statistics written there,
  named by the expression that is printed), to \<^verbatim>\<open>std::cout\<close> or to \<^verbatim>\<open>std::cerr\<close>; the
  \<^verbatim>\<open>unlink\<close> of the database; the creation of the dataset; the opening of a reader
  on a file with a type mask, and its closing; \<^verbatim>\<open>collector.used_memory()\<close>; a way that
  the reader of pass 2 hands to the handler of the collector, as the handlers before it
  have left it; a way handed to the assembler; a relation handed to the assembler, with
  the member ways that are handed over with it; an area written by the dump handler; a
  feature added to the layer.
\<close>

datatype event =
    vout string
  | cout string
  | cerr string
  | unlink string
  | Dataset string
  | Reader string "entity_bit set"
  | close_reader
  | vout_value string
  | used_memory
  | to_handler_way Way
  | to_assembler_way object_id_type
  | to_assembler_relation object_id_type "Way list"
  | Dump ostream_ptr Area
  | add_to_layer Feature

subsection \<open>The class \<open>OutputOGR\<close>\<close>

text \<open>
  The collaborators of \<^verbatim>\<open>OutputOGR::area\<close>: the geometry factory
  (\<^verbatim>\<open>m_factory.create_multipolygon\<close>, which throws \<^verbatim>\<open>osmium::geometry_error\<close> on an
  illegal geometry), OGR's validity test (\<^verbatim>\<open>geom->IsValid()\<close>; the GEOS branch is
  compiled out, \<^verbatim>\<open>OSMIUM_AREA_WITH_GEOS\<close> being commented out) and the write of the
  feature (\<^verbatim>\<open>feature.add_to_layer()\<close>, \<open>Some e\<close> when it throws \<open>e\<close>).
\<close>

record ogr_env =
  create_multipolygon :: "Area \<Rightarrow> exn + OGRGeometry"
  IsValid :: "OGRGeometry \<Rightarrow> bool"
  CreateFeature :: "Feature \<Rightarrow> exn option"

record OutputOGR =
  m_check :: bool
  m_only_invalid :: bool

definition OutputOGR_new :: "OutputOGR" where
  "OutputOGR_new = \<lparr>m_check = False, m_only_invalid = False\<rparr>"

definition set_check :: "bool \<Rightarrow> OutputOGR \<Rightarrow> OutputOGR" where
  "set_check c out = out\<lparr>m_check := c\<rparr>"

definition set_only_invalid :: "bool \<Rightarrow> OutputOGR \<Rightarrow> OutputOGR" where
  "set_only_invalid oi out = out\<lparr>m_only_invalid := oi\<rparr>"

definition print_area_error :: "Area \<Rightarrow> string \<Rightarrow> string" where
  "print_area_error a what =
     ''Ignoring illegal geometry for area '' @ show_id (area_id a) @
     '' created from '' @ (if from_way a then ''way'' else ''relation'') @
     '' with id='' @ show_id (orig_id a) @ '' ('' @ what @ '').\<newline>''"

text \<open>
  The \<^verbatim>\<open>catch (osmium::geometry_error& e)\<close> clause of \<^verbatim>\<open>area\<close>: a geometry error is
  printed and swallowed, every other exception leaves the function.
\<close>

definition area_catch :: "Area \<Rightarrow> exn \<Rightarrow> event list \<times> exn option" where
  "area_catch a e =
     (case e of
        geometry_error what \<Rightarrow> ([cerr (print_area_error a what)], None)
      | _ \<Rightarrow> ([], Some e))"

definition make_feature :: "OGRGeometry \<Rightarrow> bool \<Rightarrow> Area \<Rightarrow> Feature" where
  "make_feature geom is_valid a =
     \<lparr>field_geom = geom,
      field_id = ucast (area_id a),
      field_valid = is_valid,
      field_source = (if from_way a then ''w'' else ''r''),
      field_orig_id = ucast (orig_id a)\<rparr>"

text \<open>
  \<^verbatim>\<open>OutputOGR::area\<close>. The result is the events of the call and the exception that
  leaves it, if one does.
\<close>

definition area :: "ogr_env \<Rightarrow> OutputOGR \<Rightarrow> Area \<Rightarrow> event list \<times> exn option" where
  "area env out a =
     (case create_multipolygon env a of
        Inl e \<Rightarrow> area_catch a e
      | Inr geom \<Rightarrow>
          (let is_valid = (if m_check out then IsValid env geom else False) in
           if m_only_invalid out \<and> is_valid then ([], None)
           else
             (let feature = make_feature geom is_valid a in
              case CreateFeature env feature of
                Some e \<Rightarrow> area_catch a e
              | None \<Rightarrow> ([add_to_layer feature], None))))"

text \<open>
  \<^verbatim>\<open>osmium::apply(buffer, handler)\<close>: the handler is called on each item in order;
  an exception that leaves the handler ends the loop.
\<close>

fun apply_each :: "('a \<Rightarrow> event list \<times> exn option) \<Rightarrow> 'a list \<Rightarrow> event list \<times> exn option" where
  "apply_each h [] = ([], None)"
| "apply_each h (a # rest) =
     (case h a of
        (es, Some e) \<Rightarrow> (es, Some e)
      | (es, None) \<Rightarrow> (es @ fst (apply_each h rest), snd (apply_each h rest)))"

subsection \<open>The class \<open>DummyAssembler\<close>\<close>

text \<open>
  \<^verbatim>\<open>osmium::area::area_stats\<close> is declared outside this file: its type is the
  parameter \<open>'stats\<close>, and the value of a default-constructed \<^verbatim>\<open>area_stats\<close> is given
  to the constructor. The output buffer is the list of the areas committed to it.
\<close>

record 'stats DummyAssembler =
  m_stats :: 'stats

datatype config_type = config_type

definition DummyAssembler_new :: "'stats \<Rightarrow> config_type \<Rightarrow> 'stats DummyAssembler" where
  "DummyAssembler_new stats0 cfg = \<lparr>m_stats = stats0\<rparr>"

text \<open>
  \<^verbatim>\<open>void operator()(const osmium::Way&, osmium::memory::Buffer&) {}\<close> and
  \<^verbatim>\<open>void operator()(const osmium::Relation&, const std::vector<const osmium::Way*>&,
  osmium::memory::Buffer&) {}\<close>: both bodies are empty.
\<close>

definition DummyAssembler_way ::
  "'stats DummyAssembler \<Rightarrow> Way \<Rightarrow> Area list \<Rightarrow> 'stats DummyAssembler \<times> Area list" where
  "DummyAssembler_way d w buffer = (d, buffer)"

definition DummyAssembler_relation ::
  "'stats DummyAssembler \<Rightarrow> Relation \<Rightarrow> Way list \<Rightarrow> Area list \<Rightarrow>
     'stats DummyAssembler \<times> Area list" where
  "DummyAssembler_relation d r ws buffer = (d, buffer)"

definition stats :: "'stats DummyAssembler \<Rightarrow> 'stats" where
  "stats d = m_stats d"

subsection \<open>The class \<open>optional_output\<close> and \<open>entity_bits\<close>\<close>

record optional_output =
  stream :: ostream_ptr

definition optional_output_new :: "optional_output" where
  "optional_output_new = \<lparr>stream = nullptr\<rparr>"

text \<open>
  \<^verbatim>\<open>set_file\<close>: \<^verbatim>\<open>stream = new std::ofstream{filename}\<close>. Whether the file could be
  opened is the environment's (\<open>opens filename\<close>); the source never asks.
\<close>

definition set_file :: "(string \<Rightarrow> bool) \<Rightarrow> string \<Rightarrow> optional_output \<Rightarrow> optional_output" where
  "set_file opens filename out = out\<lparr>stream := new_ofstream filename (opens filename)\<rparr>"

definition set_stdout :: "optional_output \<Rightarrow> optional_output" where
  "set_stdout out = out\<lparr>stream := std_cout\<rparr>"

text \<open>\<^verbatim>\<open>operator bool\<close>: \<^verbatim>\<open>return !!stream\<close>.\<close>

definition is_set :: "optional_output \<Rightarrow> bool" where
  "is_set out = (stream out \<noteq> nullptr)"

text \<open>\<^verbatim>\<open>get\<close>: \<^verbatim>\<open>assert(stream); return *stream\<close>. It is only called where \<open>is_set\<close>.\<close>

definition get_stream :: "optional_output \<Rightarrow> ostream_ptr" where
  "get_stream out = stream out"

text \<open>
  \<^verbatim>\<open>osmium::osm_entity_bits::type\<close> is a set of entity types; \<^verbatim>\<open>way | node\<close> is the
  union.
\<close>

definition entity_bits :: "string \<Rightarrow> entity_bit set" where
  "entity_bits location_index_type =
     (if location_index_type = ''none'' then {way} else {way} \<union> {node})"

subsection \<open>The options of \<open>main\<close>\<close>

text \<open>
  The exit codes are declared in \<^verbatim>\<open>oat.hpp\<close>; \<^verbatim>\<open>main\<close> uses these two by name.
\<close>

datatype exit_code = exit_code_ok | exit_code_cmdline_error

text \<open>
  How a run ends: \<^verbatim>\<open>main\<close> returns, \<^verbatim>\<open>exit\<close> is called, or an exception that nothing
  catches leaves \<^verbatim>\<open>main\<close> (\<^verbatim>\<open>main\<close> has no \<^verbatim>\<open>try\<close> block) and the process is
  terminated.
\<close>

datatype ending = returned exit_code | exited exit_code | terminated exn

text \<open>The local variables of \<^verbatim>\<open>main\<close> that the options set.\<close>

record locals =
  database_name :: string
  location_index_type :: string
  dump_stream :: optional_output
  problem_stream :: optional_output
  debug_level :: int
  check :: bool
  collect_only :: bool
  only_invalid :: bool
  show_incomplete :: bool
  overwrite :: bool
  check_roles :: bool
  create_empty_areas :: bool
  way_polygons :: bool
  new_style_polygons :: bool
  old_style_polygons :: bool

definition locals_init :: "locals" where
  "locals_init =
     \<lparr>database_name = [],
      location_index_type = ''sparse_mmap_array'',
      dump_stream = optional_output_new,
      problem_stream = optional_output_new,
      debug_level = 0,
      check = False,
      collect_only = False,
      only_invalid = False,
      show_incomplete = False,
      overwrite = False,
      check_roles = False,
      create_empty_areas = False,
      way_polygons = True,
      new_style_polygons = True,
      old_style_polygons = True\<rparr>"

text \<open>
  What \<^verbatim>\<open>getopt_long\<close> returns for the option string
  \<^verbatim>\<open>"cCd::D::efhi:Io:Op::rRsSwx"\<close>: the option character with \<^verbatim>\<open>optarg\<close>, which is
  a string for \<^verbatim>\<open>i\<close> and \<^verbatim>\<open>o\<close> (required argument), may be null for \<^verbatim>\<open>d\<close>, \<^verbatim>\<open>D\<close>
  and \<^verbatim>\<open>p\<close> (optional argument), and is not read for the others. \<open>opt_other\<close> is any
  other return value (\<^verbatim>\<open>'?'\<close> for an unknown option). The end of the list is the
  return value \<^verbatim>\<open>-1\<close>.
\<close>

datatype getopt_result =
    opt_c | opt_C | opt_d "string option" | opt_D "string option" | opt_e | opt_f
  | opt_h | opt_i string | opt_I | opt_o string | opt_O | opt_p "string option"
  | opt_r | opt_R | opt_s | opt_S | opt_w | opt_x | opt_other

text \<open>
  \<^verbatim>\<open>std::atoi\<close>: white space, an optional sign, then decimal digits up to the first
  character that is none. The result is an \<^verbatim>\<open>int\<close>: as in the C library,
  \<^verbatim>\<open>atoi(s)\<close> is \<^verbatim>\<open>(int) strtol(s, nullptr, 10)\<close>, the value kept within
  \<^verbatim>\<open>long\<close> (64 bits) and then cut to 32 bits, read signed.
\<close>

definition is_space :: "char \<Rightarrow> bool" where
  "is_space c = (c \<in> {CHR '' '', CHR 0x09, CHR 0x0A, CHR 0x0B, CHR 0x0C, CHR 0x0D})"

definition is_digit :: "char \<Rightarrow> bool" where
  "is_digit c = (48 \<le> (of_char c :: nat) \<and> (of_char c :: nat) \<le> 57)"

fun digits_value :: "int \<Rightarrow> string \<Rightarrow> int" where
  "digits_value acc [] = acc"
| "digits_value acc (c # cs) =
     (if is_digit c then digits_value (acc * 10 + (of_char c - 48)) cs else acc)"

definition strtol :: "string \<Rightarrow> int" where
  "strtol s =
     (let v = (case dropWhile is_space s of
                 [] \<Rightarrow> 0
               | c # cs \<Rightarrow>
                   if c = CHR ''-'' then - digits_value 0 cs
                   else if c = CHR ''+'' then digits_value 0 cs
                   else digits_value 0 (c # cs))
      in max (- (2 ^ 63)) (min (2 ^ 63 - 1) v))"

definition atoi :: "string \<Rightarrow> int" where
  "atoi s = sint (word_of_int (strtol s) :: 32 word)"

definition print_help :: "string" where
  "print_help =
     ''oat_create_areas [OPTIONS] OSMFILE\<newline>\<newline>'' @
     ''Read OSMFILE and build multipolygons from it.\<newline>'' @
     ''\<newline>Options:\<newline>'' @
     ''  -c, --check                  Check geometries\<newline>'' @
     ''  -C, --collect-only           Only collect data, don't assemble areas\<newline>'' @
     ''  -f, --only-invalid           Filter out valid geometries\<newline>'' @
     ''  -d, --debug[=LEVEL]          Set area assembler debug level\<newline>'' @
     ''  -D, --dump-areas[=FILE]      Dump areas to file (default: stdout)\<newline>'' @
     ''  -e, --empty-areas            Create empty areas for broken geometries\<newline>'' @
     ''  -h, --help                   This help message\<newline>'' @
     ''  -i, --index=INDEX_TYPE       Set index type for location index (default: sparse_mmap_array)\<newline>'' @
     ''  -I, --show-index-types       Show available index types for location index\<newline>'' @
     ''  -o, --output=DBNAME          Database name\<newline>'' @
     ''  -O, --overwrite              Overwrite existing database\<newline>'' @
     ''  -p, --report-problems[=FILE] Report problems to file (default: stdout)\<newline>'' @
     ''  -r, --show-incomplete        Show incomplete relations\<newline>'' @
     ''  -R, --check-roles            Check tagged member roles\<newline>'' @
     ''  -s, --no-new-style           Do not output new style multipolygons\<newline>'' @
     ''  -S, --no-old-style           Do not output old style multipolygons\<newline>'' @
     ''  -w, --no-way-polygons        Do not output areas created from ways\<newline>'' @
     ''  -x, --no-areas               Do not output areas (same as -s -S -w)\<newline>''"

text \<open>The output of the case \<^verbatim>\<open>'I'\<close>, for the map types that the factory knows.\<close>

definition show_index_types :: "string list \<Rightarrow> string \<Rightarrow> string" where
  "show_index_types types index_type =
     ''Available index types:\<newline>'' @
     concat (map (\<lambda>map_type.
        ''  '' @ map_type @
        (if map_type = index_type then '' (default)'' else []) @
        ''\<newline>'') types)"

text \<open>
  The \<^verbatim>\<open>switch (c)\<close> of the option loop. \<open>Inl code\<close> is a call of \<^verbatim>\<open>exit(code)\<close>.
\<close>

fun option_switch ::
  "string list \<Rightarrow> (string \<Rightarrow> bool) \<Rightarrow> getopt_result \<Rightarrow> locals \<Rightarrow> event list \<times> (exit_code + locals)" where
  "option_switch types opens opt_c l = ([], Inr (l\<lparr>check := True\<rparr>))"
| "option_switch types opens opt_C l = ([], Inr (l\<lparr>collect_only := True\<rparr>))"
| "option_switch types opens (opt_d optarg) l =
     ([], Inr (l\<lparr>debug_level := (case optarg of Some a \<Rightarrow> atoi a | None \<Rightarrow> 1)\<rparr>))"
| "option_switch types opens (opt_D optarg) l =
     ([], Inr (l\<lparr>dump_stream :=
        (case optarg of
           Some a \<Rightarrow> set_file opens a (dump_stream l)
         | None \<Rightarrow> set_stdout (dump_stream l))\<rparr>))"
| "option_switch types opens opt_e l = ([], Inr (l\<lparr>create_empty_areas := True\<rparr>))"
| "option_switch types opens opt_f l = ([], Inr (l\<lparr>only_invalid := True, check := True\<rparr>))"
| "option_switch types opens opt_h l = ([cout print_help], Inl exit_code_ok)"
| "option_switch types opens (opt_i optarg) l = ([], Inr (l\<lparr>location_index_type := optarg\<rparr>))"
| "option_switch types opens opt_I l =
     ([cout (show_index_types types (location_index_type l))], Inl exit_code_ok)"
| "option_switch types opens (opt_o optarg) l = ([], Inr (l\<lparr>database_name := optarg\<rparr>))"
| "option_switch types opens opt_O l = ([], Inr (l\<lparr>overwrite := True\<rparr>))"
| "option_switch types opens (opt_p optarg) l =
     ([], Inr (l\<lparr>problem_stream :=
        (case optarg of
           Some a \<Rightarrow> set_file opens a (problem_stream l)
         | None \<Rightarrow> set_stdout (problem_stream l))\<rparr>))"
| "option_switch types opens opt_r l = ([], Inr (l\<lparr>show_incomplete := True\<rparr>))"
| "option_switch types opens opt_R l = ([], Inr (l\<lparr>check_roles := True\<rparr>))"
| "option_switch types opens opt_s l = ([], Inr (l\<lparr>new_style_polygons := False\<rparr>))"
| "option_switch types opens opt_S l = ([], Inr (l\<lparr>old_style_polygons := False\<rparr>))"
| "option_switch types opens opt_w l = ([], Inr (l\<lparr>way_polygons := False\<rparr>))"
| "option_switch types opens opt_x l =
     ([], Inr (l\<lparr>new_style_polygons := False, old_style_polygons := False,
                  way_polygons := False\<rparr>))"
| "option_switch types opens opt_other l = ([], Inl exit_code_cmdline_error)"

text \<open>The loop \<^verbatim>\<open>while (true)\<close> over the results of \<^verbatim>\<open>getopt_long\<close>.\<close>

fun option_loop ::
  "string list \<Rightarrow> (string \<Rightarrow> bool) \<Rightarrow> getopt_result list \<Rightarrow> locals \<Rightarrow> event list \<times> (exit_code + locals)" where
  "option_loop types opens [] l = ([], Inr l)"
| "option_loop types opens (c # cs) l =
     (case option_switch types opens c l of
        (es, Inl code) \<Rightarrow> (es, Inl code)
      | (es, Inr l') \<Rightarrow>
          (es @ fst (option_loop types opens cs l'), snd (option_loop types opens cs l')))"


subsection \<open>The collector\<close>

text \<open>
  The class \<^verbatim>\<open>MultipolygonCollector\<close>, the reader and the location handler are not
  in \<^verbatim>\<open>src/\<close>: \<^verbatim>\<open>main\<close> only calls them. The definitions of this subsection
  are the spec's Relation Prefilter (4.2), Way/Point Resolver, and Dependency Tracker and
  Assembly Trigger (4.3), in the spec's words.
\<close>

text \<open>
  Modelled from the spec: the PendingRelation of the collector, which is missing. It holds
  the relation, its member list restricted to way members with role inner, outer or
  empty, the count of not-yet-resolved members, and the cache of the resolved member
  ways. The count is the number of member ways that are still to come; a way that the
  relation lists twice is one way.
\<close>

record PendingRelation =
  pending_relation :: Relation
  pending_members :: "(object_id_type \<times> string) list"
  missing_count :: nat
  member_cache :: "Way list"

text \<open>
  Modelled from the spec: the state of the collector, which is missing. It is the
  PendingRelation set, in the order of pass 1, and the ReverseIndex from a way id to the
  ids of the pending relations that reference it.
\<close>

record collector =
  pending :: "PendingRelation list"
  reverse_index :: "object_id_type \<Rightarrow> object_id_type list"

text \<open>
  Modelled from the spec: the collector before pass 1, the id of a pending relation and
  the set of its member ways.
\<close>

definition collector_new :: "collector" where
  "collector_new = \<lparr>pending = [], reverse_index = (\<lambda>w. [])\<rparr>"

definition pending_id :: "PendingRelation \<Rightarrow> object_id_type" where
  "pending_id p = relation_id (pending_relation p)"

definition member_ways :: "PendingRelation \<Rightarrow> object_id_type set" where
  "member_ways p = set (map fst (pending_members p))"

text \<open>
  Modelled from the spec: the area-membership predicate of the missing collector over
  the tags of a relation, type=multipolygon or type=boundary.
\<close>

definition area_predicate :: "tags \<Rightarrow> bool" where
  "area_predicate ts = (map_of ts ''type'' = Some ''multipolygon'' \<or> map_of ts ''type'' = Some ''boundary'')"

text \<open>
  Modelled from the spec: the eligible members of a relation in the missing collector,
  which are the way members with role inner, outer or empty, and the PendingRelation that
  pass 1 makes of a relation.
\<close>

definition eligible :: "Member \<Rightarrow> bool" where
  "eligible m =
     (member_type m = way \<and>
      (member_role m = ''inner'' \<or> member_role m = ''outer'' \<or> member_role m = []))"

definition eligible_ways :: "Relation \<Rightarrow> object_id_type list" where
  "eligible_ways r = map member_ref (filter eligible (relation_members r))"

definition make_pending :: "Relation \<Rightarrow> PendingRelation" where
  "make_pending r =
     \<lparr>pending_relation = r,
      pending_members = map (\<lambda>m. (member_ref m, member_role m)) (filter eligible (relation_members r)),
      missing_count = length (remdups (eligible_ways r)),
      member_cache = []\<rparr>"

text \<open>
  Modelled from the spec: the registration of a member way in the ReverseIndex of the
  missing collector. The relation's id enters the way's set, once.
\<close>

definition register_way ::
  "object_id_type \<Rightarrow> object_id_type \<Rightarrow> (object_id_type \<Rightarrow> object_id_type list) \<Rightarrow>
     (object_id_type \<Rightarrow> object_id_type list)" where
  "register_way r w ri = ri(w := (if r \<in> set (ri w) then ri w else ri w @ [r]))"

text \<open>
  Modelled from the spec: \<^verbatim>\<open>collector.read_relations\<close>, which is missing. A relation
  that matches the predicate becomes a PendingRelation and each of its member ways is
  registered; any other relation is dropped.
\<close>

definition prefilter_relation :: "Relation \<Rightarrow> collector \<Rightarrow> collector" where
  "prefilter_relation r c =
     (if area_predicate (relation_tags r) then
        \<lparr>pending = pending c @ [make_pending r],
         reverse_index = fold (register_way (relation_id r)) (eligible_ways r) (reverse_index c)\<rparr>
      else c)"

fun collector_read_relations :: "entity list \<Rightarrow> collector \<Rightarrow> collector" where
  "collector_read_relations [] c = c"
| "collector_read_relations (a_relation r # es) c =
     collector_read_relations es (prefilter_relation r c)"
| "collector_read_relations (_ # es) c = collector_read_relations es c"

text \<open>
  Modelled from the spec: the tracker of the missing collector on one way of pass 2. For
  each PendingRelation that the ReverseIndex gives for the way, the resolved way enters
  the cache and the missing-count is decremented. A relation whose count has reached
  zero is ready: it leaves the PendingRelation set and the ReverseIndex, and is handed to
  the assembler. The result is the tracker and the ready relations.
\<close>

definition references :: "collector \<Rightarrow> Way \<Rightarrow> PendingRelation \<Rightarrow> bool" where
  "references c w p = (pending_id p \<in> set (reverse_index c (way_id w)))"

definition member_arrives :: "Way \<Rightarrow> PendingRelation \<Rightarrow> PendingRelation" where
  "member_arrives w p =
     p\<lparr>member_cache := member_cache p @ [w], missing_count := missing_count p - 1\<rparr>"

definition is_ready :: "collector \<Rightarrow> Way \<Rightarrow> PendingRelation \<Rightarrow> bool" where
  "is_ready c w p = (references c w p \<and> missing_count p = 0)"

definition way_arrives :: "Way \<Rightarrow> collector \<Rightarrow> collector \<times> PendingRelation list" where
  "way_arrives w c =
     (let updated = map (\<lambda>p. if references c w p then member_arrives w p else p) (pending c);
          ready = filter (is_ready c w) updated
      in (\<lparr>pending = filter (\<lambda>p. \<not> is_ready c w p) updated,
           reverse_index = (\<lambda>v. filter (\<lambda>r. r \<notin> set (map pending_id ready)) (reverse_index c v))\<rparr>,
          ready))"

text \<open>
  Modelled from the spec: \<^verbatim>\<open>collector.get_incomplete_relations\<close>, which is missing.
  At the end of the stream the relations that remain with a positive missing-count are
  the incomplete ones.
\<close>

definition get_incomplete_relations :: "collector \<Rightarrow> Relation list" where
  "get_incomplete_relations c =
     map pending_relation (filter (\<lambda>p. 0 < missing_count p) (pending c))"

text \<open>
  Modelled from the spec: the location index and the location handler, which are
  missing. A node puts its location, a way gets the location of each of its node
  references (absent when the index has none).
\<close>

type_synonym location_index = "object_id_type \<Rightarrow> Location option"

definition index_put :: "Node \<Rightarrow> location_index \<Rightarrow> location_index" where
  "index_put n idx = idx(node_id n := node_location n)"

definition resolve :: "location_index \<Rightarrow> Way \<Rightarrow> Way" where
  "resolve idx w = w\<lparr>way_nodes := map (\<lambda>(r, l). (r, idx r)) (way_nodes w)\<rparr>"

text \<open>
  Modelled from the spec: the reader, which is missing. It yields the entities of the
  file whose type is in the type mask.
\<close>

definition read_entities :: "entity_bit set \<Rightarrow> entity list \<Rightarrow> entity list" where
  "read_entities bits es = filter (\<lambda>e. entity_type e \<in> bits) es"

text \<open>
  Modelled from the spec: what the missing collector hands to the assembler, a single way
  or a ready relation with its resolved member ways.
\<close>

datatype dispatch = assemble_way Way | assemble_relation Relation "Way list"

fun dispatch_event :: "dispatch \<Rightarrow> event" where
  "dispatch_event (assemble_way w) = to_assembler_way (way_id w)"
| "dispatch_event (assemble_relation r ws) = to_assembler_relation (relation_id r) ws"

text \<open>
  Modelled from the spec: one dispatch of the missing collector. The assembler is called,
  and the areas that it has produced go to the callback of the handler.
\<close>

definition dispatch_to ::
  "(dispatch \<Rightarrow> Area list) \<Rightarrow> (Area list \<Rightarrow> event list \<times> exn option) \<Rightarrow> dispatch \<Rightarrow>
     event list \<times> exn option" where
  "dispatch_to assembler callback d =
     (dispatch_event d # fst (callback (assembler d)), snd (callback (assembler d)))"

text \<open>
  Modelled from the spec: the closed-ring test of the missing collector. A way is a closed
  ring when it has nodes and ends on the node it starts from.
\<close>

definition is_closed :: "Way \<Rightarrow> bool" where
  "is_closed w = (way_nodes w \<noteq> [] \<and> fst (hd (way_nodes w)) = fst (last (way_nodes w)))"

text \<open>
  Modelled from the spec: the handlers of pass 2 on one way, which are missing. The way
  is resolved (when the location handler is in the chain) and handed to the handler of
  the collector, the tracker is told, each ready relation is dispatched and,
  independently, so is the way itself when it is a standalone area.
\<close>

definition handle_way ::
  "bool \<Rightarrow> (Way \<Rightarrow> bool) \<Rightarrow> (dispatch \<Rightarrow> Area list) \<Rightarrow> (Area list \<Rightarrow> event list \<times> exn option) \<Rightarrow>
     Way \<Rightarrow> location_index \<times> collector \<Rightarrow> (event list \<times> exn option) \<times> location_index \<times> collector" where
  "handle_way need_locations standalone assembler callback w st =
     (let resolved = (if need_locations then resolve (fst st) w else w);
          arrived = way_arrives resolved (snd st);
          dispatches =
            map (\<lambda>p. assemble_relation (pending_relation p) (member_cache p)) (snd arrived) @
            (if standalone resolved then [assemble_way resolved] else [])
      in ((to_handler_way resolved # fst (apply_each (dispatch_to assembler callback) dispatches),
           snd (apply_each (dispatch_to assembler callback) dispatches)),
          fst st, fst arrived))"

text \<open>
  Modelled from the spec: \<^verbatim>\<open>osmium::apply\<close> on a reader, which is missing. It is
  \<^verbatim>\<open>osmium::apply(reader2, location_handler, collector.handler(callback))\<close>, and
  without \<^verbatim>\<open>location_handler\<close> when \<open>need_locations\<close> is false: the handlers are
  called on the entities of the reader in order. An exception that leaves the callback
  ends the loop.
\<close>

fun apply_reader ::
  "bool \<Rightarrow> (Way \<Rightarrow> bool) \<Rightarrow> (dispatch \<Rightarrow> Area list) \<Rightarrow> (Area list \<Rightarrow> event list \<times> exn option) \<Rightarrow>
     entity list \<Rightarrow> location_index \<times> collector \<Rightarrow> (event list \<times> exn option) \<times> location_index \<times> collector" where
  "apply_reader need_locations standalone assembler callback [] st = (([], None), st)"
| "apply_reader need_locations standalone assembler callback (a_node n # es) st =
     apply_reader need_locations standalone assembler callback es
       (if need_locations then (index_put n (fst st), snd st) else st)"
| "apply_reader need_locations standalone assembler callback (a_relation r # es) st =
     apply_reader need_locations standalone assembler callback es st"
| "apply_reader need_locations standalone assembler callback (a_way w # es) st =
     (case handle_way need_locations standalone assembler callback w st of
        ((evs, Some e), st') \<Rightarrow> ((evs, Some e), st')
      | ((evs, None), st') \<Rightarrow>
          (case apply_reader need_locations standalone assembler callback es st' of
             ((evs', r), st'') \<Rightarrow> ((evs @ evs', r), st'')))"

subsection \<open>The function \<open>main\<close>\<close>

text \<open>
  The configuration of \<^verbatim>\<open>osmium::area::Assembler\<close>, with the fields that \<^verbatim>\<open>main\<close>
  sets.
\<close>

record assembler_config =
  cfg_check_roles :: bool
  cfg_create_empty_areas :: bool
  cfg_debug_level :: int
  cfg_create_way_polygons :: bool
  cfg_create_new_style_polygons :: bool
  cfg_create_old_style_polygons :: bool
  problem_reporter :: "reporter option"

text \<open>
  The collaborators of \<^verbatim>\<open>main\<close>: the index factory (\<open>create_map\<close> is \<open>Some e\<close> when
  it throws \<open>e\<close>), the file system (\<open>ofstream_opens\<close>), the reader (\<open>open_file\<close> is
  the exception that a \<^verbatim>\<open>Reader\<close> on the file throws, or the entities of the file),
  the OGR dataset (\<open>create_dataset\<close> is \<open>Some e\<close> when the constructor or the set-up
  of the layer throws \<open>e\<close>), the geometry and feature calls of \<^verbatim>\<open>OutputOGR\<close>, the
  assembler (\<^verbatim>\<open>osmium::area::Assembler\<close>: the areas that it produces for a dispatch
  under a configuration), the tags that make a closed way an area, and the value of a
  default-constructed \<^verbatim>\<open>area_stats\<close>.
\<close>

record 'stats environment =
  map_types :: "string list"
  create_map :: "string \<Rightarrow> exn option"
  ofstream_opens :: "string \<Rightarrow> bool"
  open_file :: "string \<Rightarrow> exn + entity list"
  create_dataset :: "string \<Rightarrow> exn option"
  ogr :: ogr_env
  Assembler :: "assembler_config \<Rightarrow> dispatch \<Rightarrow> Area list"
  area_tags :: "tags \<Rightarrow> bool"
  area_stats0 :: 'stats

text \<open>Sequencing: the second step runs unless an exception has left the first.\<close>

definition and_then ::
  "event list \<times> (exn + 'a) \<Rightarrow> ('a \<Rightarrow> event list \<times> (exn + 'b)) \<Rightarrow> event list \<times> (exn + 'b)" where
  "and_then m f =
     (case m of
        (es, Inl e) \<Rightarrow> (es, Inl e)
      | (es, Inr x) \<Rightarrow> (es @ fst (f x), snd (f x)))"

definition emit :: "event list \<Rightarrow> event list \<times> (exn + unit)" where
  "emit es = (es, Inr ())"

text \<open>
  \<^verbatim>\<open>read_relations\<close>: a reader for relations only is opened on the file, the
  collector reads from it, and the reader is closed.
\<close>

definition read_relations ::
  "'stats environment \<Rightarrow> collector \<Rightarrow> string \<Rightarrow> event list \<times> (exn + collector)" where
  "read_relations env c file =
     (case open_file env file of
        Inl e \<Rightarrow> ([], Inl e)
      | Inr es \<Rightarrow>
          ([Reader file {relation}, close_reader],
           Inr (collector_read_relations (read_entities {relation} es) c)))"

text \<open>
  \<^verbatim>\<open>show_incomplete_relations\<close>: one line on \<^verbatim>\<open>std::cerr\<close> with the ids of the
  incomplete relations, when there are any.
\<close>

definition show_incomplete_relations :: "collector \<Rightarrow> event list" where
  "show_incomplete_relations c =
     (let incomplete_relations = get_incomplete_relations c in
      if incomplete_relations \<noteq> [] then
        [cerr (''Warning! Some member ways missing for these multipolygon relations:'' @
               concat (map (\<lambda>r. '' '' @ show_id (relation_id r)) incomplete_relations) @
               ''\<newline>'')]
      else [])"

text \<open>
  The second pass, which the three branches of \<^verbatim>\<open>main\<close> share: \<^verbatim>\<open>reader2\<close> is
  opened with \<^verbatim>\<open>entity_bits(location_index_type)\<close>, applied to the handlers (with
  the location handler when \<^verbatim>\<open>need_locations\<close>), and closed.
\<close>

definition second_pass ::
  "'stats environment \<Rightarrow> string \<Rightarrow> (Way \<Rightarrow> bool) \<Rightarrow> (dispatch \<Rightarrow> Area list) \<Rightarrow>
     (Area list \<Rightarrow> event list \<times> exn option) \<Rightarrow> collector \<Rightarrow> string \<Rightarrow> event list \<times> (exn + collector)" where
  "second_pass env index_type standalone assembler callback c file =
     (let need_locations = (index_type \<noteq> ''none'') in
      case open_file env file of
        Inl e \<Rightarrow> ([], Inl e)
      | Inr es \<Rightarrow>
          (case apply_reader need_locations standalone assembler callback
                  (read_entities (entity_bits index_type) es) (\<lambda>r. None, c) of
             ((evs, Some e), st) \<Rightarrow> (Reader file (entity_bits index_type) # evs, Inl e)
           | ((evs, None), st) \<Rightarrow>
               (Reader file (entity_bits index_type) # evs @ [close_reader], Inr (snd st))))"

text \<open>The messages of the two passes.\<close>

definition first_pass_starts :: "event list" where
  "first_pass_starts = [vout ''Starting first pass (reading relations)...\<newline>'']"

definition between_passes :: "event list" where
  "between_passes =
     [vout ''First pass done.\<newline>'', vout ''Memory:\<newline>'', used_memory,
      vout ''Starting second pass (reading nodes and ways and assembling areas)...\<newline>'']"

definition print_stats :: "event list" where
  "print_stats = [vout ''Stats:'', vout_value ''collector.stats()'', vout ''\<newline>'']"

text \<open>
  The branch \<^verbatim>\<open>if (collect_only)\<close>: the collector is instantiated with
  \<^verbatim>\<open>DummyAssembler\<close>, and its handler has no callback. A fresh assembler is
  constructed for each dispatch and called on the output buffer.
\<close>

definition DummyAssembler_dispatch :: "'stats \<Rightarrow> dispatch \<Rightarrow> Area list" where
  "DummyAssembler_dispatch stats0 d =
     (case d of
        assemble_way w \<Rightarrow> snd (DummyAssembler_way (DummyAssembler_new stats0 config_type) w [])
      | assemble_relation r ws \<Rightarrow>
          snd (DummyAssembler_relation (DummyAssembler_new stats0 config_type) r ws []))"

definition main_collect_only ::
  "'stats environment \<Rightarrow> locals \<Rightarrow> string \<Rightarrow> event list \<times> (exn + unit)" where
  "main_collect_only env l input_file =
     and_then (emit first_pass_starts) (\<lambda>u.
     and_then (read_relations env collector_new input_file) (\<lambda>c.
     and_then (emit between_passes) (\<lambda>u.
     and_then (second_pass env (location_index_type l)
                 (\<lambda>w. is_closed w \<and> area_tags env (way_tags w))
                 (DummyAssembler_dispatch (area_stats0 env))
                 (\<lambda>buffer. ([], None)) c input_file) (\<lambda>c'.
     emit ([vout ''Second pass done\<newline>'', vout ''Memory:\<newline>'', used_memory] @
           print_stats)))))"

text \<open>
  The \<^verbatim>\<open>else\<close> branch starts with the configuration of the assembler. The problem
  reporter is set only \<^verbatim>\<open>if (problem_stream)\<close>; it is a null pointer otherwise.
\<close>

definition main_reporter :: "locals \<Rightarrow> reporter option" where
  "main_reporter l =
     (if is_set (problem_stream l)
      then Some (ProblemReporterStream (get_stream (problem_stream l)))
      else None)"

definition main_assembler_config :: "locals \<Rightarrow> assembler_config" where
  "main_assembler_config l =
     \<lparr>cfg_check_roles = check_roles l,
      cfg_create_empty_areas = create_empty_areas l,
      cfg_debug_level = debug_level l,
      cfg_create_way_polygons = way_polygons l,
      cfg_create_new_style_polygons = new_style_polygons l,
      cfg_create_old_style_polygons = old_style_polygons l,
      problem_reporter = main_reporter l\<rparr>"

text \<open>
  Modelled from the spec: the standalone-area predicate of the missing collector. The way
  is a closed ring, carries area-indicating tags, and way-derived output is enabled. (The
  collect-only branch has no such switch: there the predicate is the first two.)
\<close>

definition standalone_area :: "'stats environment \<Rightarrow> assembler_config \<Rightarrow> Way \<Rightarrow> bool" where
  "standalone_area env cfg w =
     (is_closed w \<and> area_tags env (way_tags w) \<and> cfg_create_way_polygons cfg)"

text \<open>
  The branch \<^verbatim>\<open>if (database_name.empty())\<close>: the callback of the handler drops the
  buffer.
\<close>

definition main_no_database ::
  "'stats environment \<Rightarrow> locals \<Rightarrow> string \<Rightarrow> event list \<times> (exn + unit)" where
  "main_no_database env l input_file =
     (let assembler_config = main_assembler_config l in
      and_then (emit first_pass_starts) (\<lambda>u.
      and_then (read_relations env collector_new input_file) (\<lambda>c.
      and_then (emit between_passes) (\<lambda>u.
      and_then (second_pass env (location_index_type l)
                  (standalone_area env assembler_config)
                  (Assembler env assembler_config)
                  (\<lambda>buffer. ([], None)) c input_file) (\<lambda>c'.
      emit ([vout ''Second pass done\<newline>'', vout ''Memory:\<newline>'', used_memory] @
            print_stats @
            (if show_incomplete l then show_incomplete_relations c' else [])))))))"

text \<open>
  The database branch. The existing database is unlinked on request (the result of
  \<^verbatim>\<open>unlink\<close> is not read), the dataset is created, and the output handler gets
  \<^verbatim>\<open>check\<close> and \<^verbatim>\<open>only_invalid\<close>. Without a problem stream the reporter is a
  \<^verbatim>\<open>ProblemReporterOGR\<close> on the dataset.
\<close>

definition main_output :: "locals \<Rightarrow> OutputOGR" where
  "main_output l = set_only_invalid (only_invalid l) (set_check (check l) OutputOGR_new)"

definition database_assembler_config :: "locals \<Rightarrow> assembler_config" where
  "database_assembler_config l =
     (main_assembler_config l)
       \<lparr>problem_reporter :=
          (if \<not> is_set (problem_stream l) then Some (ProblemReporterOGR (database_name l))
           else main_reporter l)\<rparr>"


text \<open>
  The callback of the handler: \<^verbatim>\<open>osmium::apply(buffer, dump_handler, output)\<close> when
  there is a dump stream, \<^verbatim>\<open>osmium::apply(buffer, output)\<close> otherwise.
\<close>

definition database_callback ::
  "'stats environment \<Rightarrow> locals \<Rightarrow> Area list \<Rightarrow> event list \<times> exn option" where
  "database_callback env l buffer =
     (if is_set (dump_stream l) then
        apply_each (\<lambda>a. (Dump (get_stream (dump_stream l)) a # fst (area (ogr env) (main_output l) a),
                         snd (area (ogr env) (main_output l) a))) buffer
      else apply_each (area (ogr env) (main_output l)) buffer)"

definition open_dataset :: "'stats environment \<Rightarrow> string \<Rightarrow> event list \<times> (exn + unit)" where
  "open_dataset env name =
     (case create_dataset env name of
        Some e \<Rightarrow> ([], Inl e)
      | None \<Rightarrow> ([Dataset name], Inr ()))"

definition main_database ::
  "'stats environment \<Rightarrow> locals \<Rightarrow> string \<Rightarrow> event list \<times> (exn + unit)" where
  "main_database env l input_file =
     (let assembler_config = database_assembler_config l in
      and_then (emit (if overwrite l then [unlink (database_name l)] else [])) (\<lambda>u.
      and_then (open_dataset env (database_name l)) (\<lambda>u.
      and_then (emit first_pass_starts) (\<lambda>u.
      and_then (read_relations env collector_new input_file) (\<lambda>c.
      and_then (emit between_passes) (\<lambda>u.
      and_then (second_pass env (location_index_type l)
                  (standalone_area env assembler_config)
                  (Assembler env assembler_config)
                  (database_callback env l) c input_file) (\<lambda>c'.
      emit ([vout ''Second pass done\<newline>'', used_memory] @
            print_stats @
            (if show_incomplete l then show_incomplete_relations c' else [])))))))))"

definition main_tail :: "event list" where
  "main_tail =
     [vout ''Estimated memory usage:\<newline>'',
      vout ''  location index: '', vout_value ''location_index->used_memory() / 1024'',
      vout ''kB\<newline>'',
      vout ''Actual memory usage:\<newline>'',
      vout ''  current: '', vout_value ''mcheck.current()'', vout ''MB\<newline>'',
      vout ''  peak:    '', vout_value ''mcheck.peak()'', vout ''MB\<newline>'',
      vout ''Done.\<newline>'']"

text \<open>
  \<^verbatim>\<open>main\<close>, on the results of \<^verbatim>\<open>getopt_long\<close> and the arguments that remain after
  the options.
\<close>

definition main ::
  "'stats environment \<Rightarrow> string \<Rightarrow> getopt_result list \<Rightarrow> string list \<Rightarrow> event list \<times> ending" where
  "main env argv0 opts args =
     (case option_loop (map_types env) (ofstream_opens env) opts locals_init of
        (es, Inl code) \<Rightarrow> (es, exited code)
      | (es, Inr l) \<Rightarrow>
          if length args \<noteq> 1 then
            (es @ [cerr (''Usage: '' @ argv0 @ '' [OPTIONS] OSMFILE\<newline>'')],
             exited exit_code_cmdline_error)
          else
            (case create_map env (location_index_type l) of
               Some e \<Rightarrow> (es, terminated e)
             | None \<Rightarrow>
                 (case (if collect_only l then main_collect_only env l (hd args)
                        else if database_name l = [] then main_no_database env l (hd args)
                        else main_database env l (hd args)) of
                    (es', Inl e) \<Rightarrow> (es @ es', terminated e)
                  | (es', Inr u) \<Rightarrow> (es @ es' @ main_tail, returned exit_code_ok))))"

subsection \<open>The tracker on a stream\<close>

text \<open>
  The relations and the ways of a file, in order; the collector after pass 1 on a file;
  the ways that pass 2 hands to the tracker, resolved as the handler chain resolves them;
  and the ready relations at each way of a stream.
\<close>

fun relations_of :: "entity list \<Rightarrow> Relation list" where
  "relations_of [] = []"
| "relations_of (a_relation r # es) = r # relations_of es"
| "relations_of (e # es) = relations_of es"

fun ways_of :: "entity list \<Rightarrow> Way list" where
  "ways_of [] = []"
| "ways_of (a_way w # es) = w # ways_of es"
| "ways_of (e # es) = ways_of es"

fun ready_relations :: "Way list \<Rightarrow> collector \<Rightarrow> PendingRelation list list" where
  "ready_relations [] c = []"
| "ready_relations (w # ws) c = snd (way_arrives w c) # ready_relations ws (fst (way_arrives w c))"

fun resolved_ways :: "bool \<Rightarrow> entity list \<Rightarrow> location_index \<Rightarrow> Way list" where
  "resolved_ways need_locations [] idx = []"
| "resolved_ways need_locations (a_node n # es) idx =
     resolved_ways need_locations es (if need_locations then index_put n idx else idx)"
| "resolved_ways need_locations (a_relation r # es) idx = resolved_ways need_locations es idx"
| "resolved_ways need_locations (a_way w # es) idx =
     (if need_locations then resolve idx w else w) # resolved_ways need_locations es idx"

definition pass1_collector :: "entity list \<Rightarrow> collector" where
  "pass1_collector es = collector_read_relations (read_entities {relation} es) collector_new"

definition pass2_ways :: "string \<Rightarrow> entity list \<Rightarrow> Way list" where
  "pass2_ways index_type es =
     resolved_ways (index_type \<noteq> ''none'') (read_entities (entity_bits index_type) es) (\<lambda>r. None)"

text \<open>
  Modelled from the spec: the form in which a way of the file is to reach the collector,
  whose resolver is missing. \<open>location_before before n\<close> is the location of the last
  node with the id \<open>n\<close> among the entities before the way; there is none when no node
  before the way has this id, or when that node has no location. \<open>located\<close> gives
  every node reference of the way this location, and leaves the way as the file has it
  when the index type is \<^verbatim>\<open>none\<close>.
\<close>

fun first_location :: "entity list \<Rightarrow> object_id_type \<Rightarrow> Location option" where
  "first_location [] n = None"
| "first_location (a_node x # es) n = (if node_id x = n then node_location x else first_location es n)"
| "first_location (e # es) n = first_location es n"

definition location_before :: "entity list \<Rightarrow> object_id_type \<Rightarrow> Location option" where
  "location_before es n = first_location (rev es) n"

definition located :: "string \<Rightarrow> entity list \<Rightarrow> Way \<Rightarrow> Way" where
  "located index_type before w =
     (if index_type = ''none'' then w
      else w\<lparr>way_nodes := map (\<lambda>(n, loc). (n, location_before before n)) (way_nodes w)\<rparr>)"

text \<open>
  For the proofs, a pending relation is reduced to its id and the set of its member
  ways. On these pairs, a way \<open>w\<close> completes a relation when it is one of its member
  ways and all the others are among the ways seen before; \<open>ready_ids\<close> is the tracker
  on the pairs alone. The invariant of the tracker ties the missing-count and the
  ReverseIndex to the set of ways seen so far.
\<close>

type_synonym signature = "(object_id_type \<times> object_id_type set) list"

definition sig_of :: "PendingRelation \<Rightarrow> object_id_type \<times> object_id_type set" where
  "sig_of p = (pending_id p, member_ways p)"

definition completes :: "object_id_type \<Rightarrow> object_id_type set \<Rightarrow> object_id_type \<times> object_id_type set \<Rightarrow> bool" where
  "completes w seen rm = (w \<in> snd rm \<and> snd rm \<subseteq> insert w seen)"

fun ready_ids :: "signature \<Rightarrow> object_id_type set \<Rightarrow> object_id_type list \<Rightarrow> object_id_type list list" where
  "ready_ids S seen [] = []"
| "ready_ids S seen (w # ws) =
     map fst (filter (completes w seen) S) #
     ready_ids (filter (\<lambda>rm. \<not> completes w seen rm) S) (insert w seen) ws"

definition tracker_inv :: "collector \<Rightarrow> object_id_type set \<Rightarrow> bool" where
  "tracker_inv c seen =
     (distinct (map pending_id (pending c)) \<and>
      (\<forall>p \<in> set (pending c).
         missing_count p = card (member_ways p - seen) \<and>
         (member_ways p \<subseteq> seen \<longrightarrow> member_ways p = {}) \<and>
         (\<forall>w. pending_id p \<in> set (reverse_index c w) \<longleftrightarrow> w \<in> member_ways p)))"

definition arrived :: "collector \<Rightarrow> Way \<Rightarrow> PendingRelation \<Rightarrow> PendingRelation" where
  "arrived c w p = (if references c w p then member_arrives w p else p)"

definition index_inv :: "collector \<Rightarrow> bool" where
  "index_inv c = (\<forall>w r. r \<in> set (reverse_index c w) \<longleftrightarrow>
                    (\<exists>p \<in> set (pending c). pending_id p = r \<and> w \<in> member_ways p))"

subsection \<open>Kinds of events\<close>

text \<open>
  The events that are neither the opening of a reader nor a feature written to the
  layer, and the type masks of the readers that a run opens, in order.
\<close>

fun plain :: "event \<Rightarrow> bool" where
  "plain (Reader f b) = False"
| "plain (add_to_layer f) = False"
| "plain e = True"

definition no_reader :: "event \<Rightarrow> bool" where
  "no_reader e = (\<forall>f b. e \<noteq> Reader f b)"

fun readers :: "event list \<Rightarrow> entity_bit set list" where
  "readers [] = []"
| "readers (Reader f b # es) = b # readers es"
| "readers (e # es) = readers es"

text \<open>The features that a run adds to the layer, in order.\<close>

fun features :: "event list \<Rightarrow> Feature list" where
  "features [] = []"
| "features (add_to_layer f # es) = f # features es"
| "features (e # es) = features es"

text \<open>
  The areas that a run writes to the dump stream, in order, and the events that put no
  area anywhere.
\<close>

fun dumped :: "event list \<Rightarrow> Area list" where
  "dumped [] = []"
| "dumped (Dump s a # es) = a # dumped es"
| "dumped (e # es) = dumped es"

definition no_area :: "event \<Rightarrow> bool" where
  "no_area e = ((\<forall>f. e \<noteq> add_to_layer f) \<and> (\<forall>s a. e \<noteq> Dump s a))"

text \<open>The ids of the relations that a run hands to the assembler, in order.\<close>

fun relation_dispatches :: "event list \<Rightarrow> object_id_type list" where
  "relation_dispatches [] = []"
| "relation_dispatches (to_assembler_relation i ws # es) = i # relation_dispatches es"
| "relation_dispatches (e # es) = relation_dispatches es"

text \<open>
  The ways that a run hands to the handler of the collector, in order, and the openings
  and closings of readers in a run, in order.
\<close>

fun handled_ways :: "event list \<Rightarrow> Way list" where
  "handled_ways [] = []"
| "handled_ways (to_handler_way w # es) = w # handled_ways es"
| "handled_ways (e # es) = handled_ways es"

fun reader_events :: "event list \<Rightarrow> event list" where
  "reader_events [] = []"
| "reader_events (Reader f b # es) = Reader f b # reader_events es"
| "reader_events (close_reader # es) = close_reader # reader_events es"
| "reader_events (e # es) = reader_events es"

text \<open>
  For the proofs: the events of a run that tell when a relation is handed to the
  assembler (the openings and closings of readers, the ways handed to the handler, the
  relations handed to the assembler), and the other events; the event of a ready
  relation, the events that the tracker alone gives for a stream of ways, and those of
  the two passes of a run on a file; the invariant of the member cache, which holds the
  member ways among the ways seen so far; and the location index after a list of
  entities.
\<close>

fun is_mark :: "event \<Rightarrow> bool" where
  "is_mark (Reader f b) = True"
| "is_mark close_reader = True"
| "is_mark (to_handler_way w) = True"
| "is_mark (to_assembler_relation i ws) = True"
| "is_mark e = False"

definition marks :: "event list \<Rightarrow> event list" where
  "marks es = filter is_mark es"

definition no_mark :: "event \<Rightarrow> bool" where
  "no_mark e = (\<not> is_mark e)"

definition dispatched :: "PendingRelation \<Rightarrow> event" where
  "dispatched p = to_assembler_relation (pending_id p) (member_cache p)"

fun tracker_events :: "Way list \<Rightarrow> collector \<Rightarrow> event list" where
  "tracker_events [] c = []"
| "tracker_events (w # ws) c =
     to_handler_way w # map dispatched (snd (way_arrives w c)) @ tracker_events ws (fst (way_arrives w c))"

definition run_marks :: "string \<Rightarrow> string \<Rightarrow> entity list \<Rightarrow> event list" where
  "run_marks file it es =
     Reader file {relation} # close_reader # Reader file (entity_bits it) #
     tracker_events (pass2_ways it es) (pass1_collector es) @ [close_reader]"

definition cache_inv :: "collector \<Rightarrow> Way list \<Rightarrow> bool" where
  "cache_inv c sl = (\<forall>p \<in> set (pending c). member_cache p = filter (\<lambda>v. way_id v \<in> member_ways p) sl)"

fun index_after :: "bool \<Rightarrow> entity list \<Rightarrow> location_index \<Rightarrow> location_index" where
  "index_after need_locations [] idx = idx"
| "index_after need_locations (a_node n # es) idx =
     index_after need_locations es (if need_locations then index_put n idx else idx)"
| "index_after need_locations (e # es) idx = index_after need_locations es idx"

subsection \<open>An example input\<close>

text \<open>
  A small file: a closed way tagged as a building, an open way, a multipolygon relation
  of the two ways (and of a node, which is no eligible member), a multipolygon relation
  whose only member way is not in the file, and a route relation. The example assembler
  makes one area per dispatch, with an even id for a way and an odd id for a relation.
\<close>

definition example_way_1 :: "Way" where
  "example_way_1 =
     \<lparr>way_id = 1, way_tags = [(''building'', ''yes'')],
      way_nodes = [(1, None), (2, None), (3, None), (1, None)]\<rparr>"

definition example_way_2 :: "Way" where
  "example_way_2 = \<lparr>way_id = 2, way_tags = [], way_nodes = [(1, None), (3, None)]\<rparr>"

text \<open>The two ways with the locations of their nodes, as the file gives them.\<close>

definition located_way_1 :: "Way" where
  "located_way_1 =
     \<lparr>way_id = 1, way_tags = [(''building'', ''yes'')],
      way_nodes = [(1, Some (0, 0)), (2, Some (0, 1)), (3, Some (1, 1)), (1, Some (0, 0))]\<rparr>"

definition located_way_2 :: "Way" where
  "located_way_2 = \<lparr>way_id = 2, way_tags = [], way_nodes = [(1, Some (0, 0)), (3, Some (1, 1))]\<rparr>"

definition example_relation_10 :: "Relation" where
  "example_relation_10 =
     \<lparr>relation_id = 10, relation_tags = [(''type'', ''multipolygon'')],
      relation_members =
        [\<lparr>member_ref = 1, member_type = way, member_role = ''outer''\<rparr>,
         \<lparr>member_ref = 2, member_type = way, member_role = ''inner''\<rparr>,
         \<lparr>member_ref = 1, member_type = node, member_role = []\<rparr>]\<rparr>"

definition example_relation_11 :: "Relation" where
  "example_relation_11 =
     \<lparr>relation_id = 11, relation_tags = [(''type'', ''multipolygon'')],
      relation_members = [\<lparr>member_ref = 3, member_type = way, member_role = ''outer''\<rparr>]\<rparr>"

definition example_relation_12 :: "Relation" where
  "example_relation_12 =
     \<lparr>relation_id = 12, relation_tags = [(''type'', ''route'')],
      relation_members = [\<lparr>member_ref = 1, member_type = way, member_role = []\<rparr>]\<rparr>"

definition example_file :: "entity list" where
  "example_file =
     [a_node \<lparr>node_id = 1, node_location = Some (0, 0)\<rparr>,
      a_node \<lparr>node_id = 2, node_location = Some (0, 1)\<rparr>,
      a_node \<lparr>node_id = 3, node_location = Some (1, 1)\<rparr>,
      a_way example_way_1, a_way example_way_2,
      a_relation example_relation_10, a_relation example_relation_11,
      a_relation example_relation_12]"

definition example_Assembler :: "assembler_config \<Rightarrow> dispatch \<Rightarrow> Area list" where
  "example_Assembler cfg d =
     (case d of
        assemble_way w \<Rightarrow> [\<lparr>area_id = 2 * way_id w, from_way = True, orig_id = way_id w\<rparr>]
      | assemble_relation r ws \<Rightarrow>
          [\<lparr>area_id = 2 * relation_id r + 1, from_way = False, orig_id = relation_id r\<rparr>])"

text \<open>
  In the example environment the geometry of an area from a way is valid and that of an
  area from a relation is not; no file but \<^verbatim>\<open>in.osm\<close> exists, so no problem or dump
  file can be opened; a database can be created unless it is \<^verbatim>\<open>/nowhere/areas.db\<close>.
\<close>

definition example_ogr :: "ogr_env" where
  "example_ogr =
     \<lparr>create_multipolygon =
        (\<lambda>a. Inr (if from_way a then ''MULTIPOLYGON (valid)'' else ''MULTIPOLYGON (invalid)'')),
      IsValid = (\<lambda>g. g = ''MULTIPOLYGON (valid)''),
      CreateFeature = (\<lambda>f. None)\<rparr>"

definition example_env :: "nat environment" where
  "example_env =
     \<lparr>map_types = [''dense_mem_array'', ''dense_mmap_array'', ''none'', ''sparse_mem_array'',
                   ''sparse_mmap_array''],
      create_map = (\<lambda>t. None),
      ofstream_opens = (\<lambda>f. False),
      open_file = (\<lambda>f. if f = ''in.osm'' then Inr example_file else Inl (system_error ''Open failed'')),
      create_dataset = (\<lambda>n. if n = ''/nowhere/areas.db'' then Some (gdal_error ''failed to create dataset'') else None),
      ogr = example_ogr,
      Assembler = example_Assembler,
      area_tags = (\<lambda>ts. map_of ts ''building'' = Some ''yes''),
      area_stats0 = 0\<rparr>"

text \<open>
  Two more environments: one where the geometry factory throws a geometry error for
  every area from a relation, and one where no feature can be written to the layer.
\<close>

definition broken_ogr :: "ogr_env" where
  "broken_ogr = example_ogr\<lparr>create_multipolygon :=
     (\<lambda>a. if from_way a then Inr ''MULTIPOLYGON (valid)'' else Inl (geometry_error ''invalid area''))\<rparr>"

definition readonly_env :: "nat environment" where
  "readonly_env = example_env\<lparr>ogr := example_ogr\<lparr>CreateFeature :=
     (\<lambda>f. Some (gdal_error ''creating feature in layer areas failed''))\<rparr>\<rparr>"

text \<open>
  A file of two closed ways tagged as buildings, with the ids 1 and 4294967297.
\<close>

definition wide_env :: "nat environment" where
  "wide_env = example_env\<lparr>open_file :=
     (\<lambda>f. Inr [a_way example_way_1, a_way (example_way_1\<lparr>way_id := 4294967297\<rparr>)])\<rparr>"

text \<open>
  Two files where an id comes twice: one with the way 1 twice, and without the way 2, and
  one with two relations of the id 10, the first of the way 1 and the second of the way 2,
  which is not in the file.
\<close>

definition repeated_way_env :: "nat environment" where
  "repeated_way_env = example_env\<lparr>open_file :=
     (\<lambda>f. Inr [a_way example_way_1, a_way example_way_1, a_relation example_relation_10])\<rparr>"

definition repeated_relation_env :: "nat environment" where
  "repeated_relation_env = example_env\<lparr>open_file :=
     (\<lambda>f. Inr [a_way example_way_1,
               a_relation (example_relation_10\<lparr>relation_members :=
                 [\<lparr>member_ref = 1, member_type = way, member_role = ''outer''\<rparr>]\<rparr>),
               a_relation (example_relation_10\<lparr>relation_members :=
                 [\<lparr>member_ref = 2, member_type = way, member_role = ''outer''\<rparr>]\<rparr>)])\<rparr>"

text \<open>The identifiers that a \<^verbatim>\<open>static_cast<int32_t>\<close> keeps.\<close>

definition fits_int32 :: "object_id_type \<Rightarrow> bool" where
  "fits_int32 x = (- (2 ^ 31) \<le> sint x \<and> sint x < 2 ^ 31)"

text \<open>The definitions that a run on a concrete input unfolds.\<close>

lemmas run_defs =
  main_def locals_init_def optional_output_new_def main_collect_only_def main_no_database_def
  main_database_def and_then_def emit_def read_relations_def read_entities_def first_pass_starts_def
  between_passes_def second_pass_def entity_bits_def print_stats_def main_tail_def open_dataset_def
  handle_way_def way_arrives_def references_def is_ready_def member_arrives_def pending_id_def
  prefilter_relation_def make_pending_def eligible_ways_def eligible_def area_predicate_def
  register_way_def collector_new_def dispatch_to_def DummyAssembler_dispatch_def DummyAssembler_way_def
  DummyAssembler_relation_def DummyAssembler_new_def standalone_area_def is_closed_def
  main_assembler_config_def database_assembler_config_def main_reporter_def is_set_def get_stream_def
  set_file_def set_stdout_def database_callback_def main_output_def set_check_def set_only_invalid_def
  OutputOGR_new_def area_def make_feature_def area_catch_def show_incomplete_relations_def
  get_incomplete_relations_def resolve_def index_put_def

lemmas example_defs =
  example_env_def example_ogr_def example_Assembler_def example_file_def example_way_1_def
  example_way_2_def example_relation_10_def example_relation_11_def example_relation_12_def

section \<open>Properties\<close>

subsection \<open>Events of the parts of a run\<close>

lemma apply_each_events:
  assumes "\<And>a. a \<in> set xs \<Longrightarrow> list_all P (fst (h a))"
  shows "list_all P (fst (apply_each h xs))"
  using assms
proof (induction xs)
  case Nil
  then show ?case by simp
next
  case (Cons a xs)
  obtain es r where h: "h a = (es, r)" by (cases "h a")
  have es: "list_all P es"
    using Cons.prems [of a] h by simp
  show ?case
  proof (cases r)
    case None
    with Cons h es show ?thesis by auto
  next
    case (Some x)
    with Cons h es show ?thesis by auto
  qed
qed

lemma dispatch_to_events:
  assumes "P (dispatch_event d)" and "\<And>b. list_all P (fst (callback b))"
  shows "list_all P (fst (dispatch_to assembler callback d))"
  using assms by (auto simp: dispatch_to_def)

lemma handle_way_events:
  assumes "\<And>d. P (dispatch_event d)" and "\<And>b. list_all P (fst (callback b))"
    and "\<And>v. P (to_handler_way v)"
  shows "list_all P (fst (fst (handle_way nl sa assembler callback w st)))"
proof -
  have "list_all P (fst (apply_each (dispatch_to assembler callback) ds))" for ds
    by (rule apply_each_events) (rule dispatch_to_events, rule assms(1), rule assms(2))
  then show ?thesis
    by (simp add: handle_way_def Let_def assms(3))
qed

lemma apply_reader_events:
  assumes "\<And>d. P (dispatch_event d)" and "\<And>b. list_all P (fst (callback b))"
    and "\<And>v. P (to_handler_way v)"
  shows "list_all P (fst (fst (apply_reader nl sa assembler callback es st)))"
proof (induction es arbitrary: st)
  case Nil
  then show ?case by simp
next
  case (Cons x es)
  show ?case
  proof (cases x)
    case (a_node n)
    with Cons show ?thesis by simp
  next
    case (a_relation r)
    with Cons show ?thesis by simp
  next
    case (a_way w)
    obtain evs r st' where h: "handle_way nl sa assembler callback w st = ((evs, r), st')"
      by (metis surj_pair)
    have "list_all P (fst (fst (handle_way nl sa assembler callback w st)))"
      by (rule handle_way_events) (rule assms(1), rule assms(2), rule assms(3))
    then have evs: "list_all P evs"
      using h by simp
    show ?thesis
    proof (cases r)
      case None
      with Cons [of st'] a_way h evs show ?thesis by (auto split: prod.splits)
    next
      case (Some x)
      with a_way h evs show ?thesis by simp
    qed
  qed
qed

lemma and_then_events:
  assumes "list_all P (fst m)" and "\<And>x. list_all P (fst (f x))"
  shows "list_all P (fst (and_then m f))"
  using assms by (auto simp: and_then_def split: prod.splits sum.splits)

lemma emit_events: "list_all P es \<Longrightarrow> list_all P (fst (emit es))"
  by (simp add: emit_def)

lemma read_relations_events:
  "P (Reader file {relation}) \<Longrightarrow> P close_reader \<Longrightarrow> list_all P (fst (read_relations env c file))"
  by (auto simp: read_relations_def split: sum.splits)

lemma second_pass_events:
  assumes "\<And>d. P (dispatch_event d)" and "\<And>b. list_all P (fst (callback b))"
    and "P (Reader file (entity_bits it))" and "P close_reader" and "\<And>v. P (to_handler_way v)"
  shows "list_all P (fst (second_pass env it sa assembler callback c file))"
proof (cases "open_file env file")
  case (Inl e)
  then show ?thesis by (simp add: second_pass_def)
next
  case (Inr es)
  obtain evs r st where h:
    "apply_reader (it \<noteq> ''none'') sa assembler callback (read_entities (entity_bits it) es)
       (\<lambda>r. None, c) = ((evs, r), st)"
    by (metis surj_pair)
  have "list_all P (fst (fst (apply_reader (it \<noteq> ''none'') sa assembler callback
          (read_entities (entity_bits it) es) (\<lambda>r. None, c))))"
    by (rule apply_reader_events) (rule assms(1), rule assms(2), rule assms(5))
  then have "list_all P evs"
    using h by simp
  then show ?thesis
    using Inr h assms(3,4) by (cases r) (simp_all add: second_pass_def)
qed

lemma plain_dispatch_event: "plain (dispatch_event d)"
  by (cases d) auto

lemma show_incomplete_relations_plain: "list_all plain (show_incomplete_relations c)"
  by (auto simp: show_incomplete_relations_def Let_def split: if_splits)

lemma main_collect_only_events:
  assumes "\<And>e. plain e \<Longrightarrow> P e" and "P (Reader file {relation})"
    and "P (Reader file (entity_bits (location_index_type l)))"
  shows "list_all P (fst (main_collect_only env l file))"
  unfolding main_collect_only_def
  by (intro and_then_events emit_events second_pass_events read_relations_events)
     (auto simp: first_pass_starts_def between_passes_def print_stats_def plain_dispatch_event assms)

lemma list_all_plain: "(\<And>e. plain e \<Longrightarrow> P e) \<Longrightarrow> list_all plain es \<Longrightarrow> list_all P es"
  by (induction es) auto

lemma main_no_database_events:
  assumes "\<And>e. plain e \<Longrightarrow> P e" and "P (Reader file {relation})"
    and "P (Reader file (entity_bits (location_index_type l)))"
  shows "list_all P (fst (main_no_database env l file))"
  unfolding main_no_database_def Let_def
  by (intro and_then_events emit_events second_pass_events read_relations_events)
     (auto simp: first_pass_starts_def between_passes_def print_stats_def plain_dispatch_event assms
        intro: list_all_plain [OF assms(1) show_incomplete_relations_plain])

lemma open_dataset_events: "P (Dataset name) \<Longrightarrow> list_all P (fst (open_dataset env name))"
  by (simp add: open_dataset_def split: option.splits)

lemma main_database_events:
  assumes "\<And>e. plain e \<Longrightarrow> P e" and "P (Reader file {relation})"
    and "P (Reader file (entity_bits (location_index_type l)))"
    and "\<And>b. list_all P (fst (database_callback env l b))"
  shows "list_all P (fst (main_database env l file))"
  unfolding main_database_def Let_def
  by (intro and_then_events emit_events second_pass_events read_relations_events open_dataset_events assms(4))
     (auto simp: first_pass_starts_def between_passes_def print_stats_def plain_dispatch_event assms
        intro: list_all_plain [OF assms(1) show_incomplete_relations_plain])

lemma option_switch_events: "list_all plain (fst (option_switch T opens c l))"
  by (cases c) simp_all

lemma option_loop_events: "list_all plain (fst (option_loop T opens cs l))"
proof (induction cs arbitrary: l)
  case Nil
  then show ?case by simp
next
  case (Cons c cs)
  obtain es r where h: "option_switch T opens c l = (es, r)" by (cases "option_switch T opens c l")
  have "list_all plain es" using option_switch_events [of T opens c l] h by simp
  with Cons h show ?case by (cases r) auto
qed

lemma option_switch_no_events: "option_switch T opens c l = (es, Inr l') \<Longrightarrow> es = []"
  by (cases c) auto

lemma option_loop_no_events: "option_loop T opens cs l = (es, Inr l') \<Longrightarrow> es = []"
proof (induction cs arbitrary: l es)
  case Nil
  then show ?case by simp
next
  case (Cons c cs)
  obtain es1 r where h: "option_switch T opens c l = (es1, r)" by (cases "option_switch T opens c l")
  show ?case
  proof (cases r)
    case (Inl code)
    with Cons.prems h show ?thesis by simp
  next
    case (Inr l1)
    with h have e1: "es1 = []" by (simp add: option_switch_no_events)
    obtain es2 r2 where h2: "option_loop T opens cs l1 = (es2, r2)" by (cases "option_loop T opens cs l1")
    with Cons.prems h Inr have "r2 = Inr l'" "es = es1 @ es2" by simp_all
    with Cons.IH [of l1 es2] h2 e1 show ?thesis by simp
  qed
qed

lemma main_events:
  assumes loop: "option_loop (map_types env) (ofstream_opens env) opts locals_init = (es0, Inr l)"
    and plain: "\<And>e. plain e \<Longrightarrow> P e"
    and r1: "\<And>file. P (Reader file {relation})"
    and r2: "\<And>file. P (Reader file (entity_bits (location_index_type l)))"
    and cb: "\<And>b. list_all P (fst (database_callback env l b))"
  shows "list_all P (fst (main env argv0 opts args))"
proof -
  have es0: "list_all P es0"
    using list_all_plain [OF plain option_loop_events [of "map_types env" "ofstream_opens env" opts locals_init]] loop
    by simp
  have tail: "list_all P main_tail"
    by (simp add: main_tail_def plain)
  have usage: "P (cerr s)" for s by (simp add: plain)
  let ?branch = "if collect_only l then main_collect_only env l (hd args)
                 else if database_name l = [] then main_no_database env l (hd args)
                 else main_database env l (hd args)"
  have branch: "list_all P (fst ?branch)"
    using main_collect_only_events [of P "hd args" l env, OF plain r1 r2]
      main_no_database_events [of P "hd args" l env, OF plain r1 r2]
      main_database_events [of P "hd args" l env, OF plain r1 r2 cb]
    by simp
  obtain es' r where b: "?branch = (es', r)" by (cases ?branch)
  with branch have es': "list_all P es'" by simp
  show ?thesis
    using loop es0 tail usage es' b
    by (cases r) (auto simp: main_def split: option.splits)
qed

lemma main_exited_events:
  assumes loop: "option_loop (map_types env) (ofstream_opens env) opts locals_init = (es0, Inl code)"
  shows "list_all plain (fst (main env argv0 opts args))"
  using option_loop_events [of "map_types env" "ofstream_opens env" opts locals_init] loop
  by (simp add: main_def)

lemma option_switch_only_invalid_check:
  "option_switch T opens c l = (es, Inr l') \<Longrightarrow> (only_invalid l \<longrightarrow> check l) \<Longrightarrow> (only_invalid l' \<longrightarrow> check l')"
  by (cases c) auto

lemma option_loop_only_invalid_check:
  "option_loop T opens cs l = (es, Inr l') \<Longrightarrow> (only_invalid l \<longrightarrow> check l) \<Longrightarrow> (only_invalid l' \<longrightarrow> check l')"
proof (induction cs arbitrary: l es)
  case Nil
  then show ?case by simp
next
  case (Cons c cs)
  obtain es1 r where h: "option_switch T opens c l = (es1, r)" by (cases "option_switch T opens c l")
  show ?case
  proof (cases r)
    case (Inl code)
    with Cons.prems h show ?thesis by simp
  next
    case (Inr l1)
    have 1: "only_invalid l1 \<longrightarrow> check l1"
      using option_switch_only_invalid_check [of T opens c l es1 l1] h Inr Cons.prems(2) by simp
    obtain es2 where "option_loop T opens cs l1 = (es2, Inr l')"
      using Cons.prems(1) h Inr by (cases "option_loop T opens cs l1") auto
    from Cons.IH [OF this 1] show ?thesis .
  qed
qed

lemma area_catch_no_feature: "list_all (\<lambda>e. \<forall>f. e \<noteq> add_to_layer f) (fst (area_catch a e))"
  by (cases e) (auto simp: area_catch_def)

lemma area_only_invalid:
  assumes "m_only_invalid out"
  shows "list_all (\<lambda>e. \<forall>f. e = add_to_layer f \<longrightarrow> \<not> field_valid f) (fst (area env out a))"
proof (cases "create_multipolygon env a")
  case (Inl e)
  then show ?thesis
    by (cases e) (auto simp: area_def area_catch_def)
next
  case (Inr geom)
  show ?thesis
  proof (cases "CreateFeature env (make_feature geom (if m_check out then IsValid env geom else False) a)")
    case None
    with Inr assms show ?thesis by (auto simp: area_def Let_def make_feature_def)
  next
    case (Some e)
    with Inr assms show ?thesis
      by (cases e) (auto simp: area_def Let_def area_catch_def)
  qed
qed

lemma database_callback_only_invalid:
  assumes "only_invalid l"
  shows "list_all (\<lambda>e. \<forall>f. e = add_to_layer f \<longrightarrow> \<not> field_valid f) (fst (database_callback env l b))"
proof -
  have m: "m_only_invalid (main_output l)"
    using assms by (simp add: main_output_def set_only_invalid_def)
  show ?thesis
    unfolding database_callback_def
    using area_only_invalid [OF m, of "ogr env"]
    by (auto intro!: apply_each_events)
qed

lemma area_valid_discarded:
  "m_only_invalid out \<Longrightarrow> m_check out \<Longrightarrow> create_multipolygon env a = Inr g \<Longrightarrow> IsValid env g \<Longrightarrow>
     area env out a = ([], None)"
  by (simp add: area_def)

lemma readers_append: "readers (xs @ ys) = readers xs @ readers ys"
  by (induction xs rule: readers.induct) auto

lemma readers_plain: "list_all plain es \<Longrightarrow> readers es = []"
  by (induction es rule: readers.induct) auto

lemma readers_no_reader: "list_all no_reader es \<Longrightarrow> readers es = []"
  by (induction es rule: readers.induct) (auto simp: no_reader_def)

lemma no_reader_dispatch_event: "no_reader (dispatch_event d)"
  by (cases d) (auto simp: no_reader_def)

lemma area_no_reader: "list_all no_reader (fst (area env out a))"
proof (cases "create_multipolygon env a")
  case (Inl e)
  then show ?thesis
    by (cases e) (auto simp: area_def area_catch_def no_reader_def)
next
  case (Inr geom)
  show ?thesis
  proof (cases "CreateFeature env (make_feature geom (if m_check out then IsValid env geom else False) a)")
    case None
    with Inr show ?thesis by (auto simp: area_def Let_def no_reader_def)
  next
    case (Some e)
    with Inr show ?thesis
      by (cases e) (auto simp: area_def Let_def area_catch_def no_reader_def)
  qed
qed

lemma database_callback_no_reader: "list_all no_reader (fst (database_callback env l b))"
  unfolding database_callback_def
  using area_no_reader [of "ogr env" "main_output l"]
  by (auto intro!: apply_each_events simp: no_reader_def)

lemma readers_and_then:
  "readers (fst (and_then m f)) =
     readers (fst m) @ (case snd m of Inl e \<Rightarrow> [] | Inr x \<Rightarrow> readers (fst (f x)))"
  by (auto simp: and_then_def readers_append split: prod.splits sum.splits)

lemma snd_and_then:
  "snd (and_then m f) = (case snd m of Inl e \<Rightarrow> Inl e | Inr x \<Rightarrow> snd (f x))"
  by (auto simp: and_then_def split: prod.splits sum.splits)

lemma readers_second_pass:
  assumes "\<And>b. list_all no_reader (fst (callback b))"
  shows "readers (fst (second_pass env it sa assembler callback c file)) =
     (case open_file env file of Inl e \<Rightarrow> [] | Inr es \<Rightarrow> [entity_bits it])"
proof (cases "open_file env file")
  case (Inl e)
  then show ?thesis by (simp add: second_pass_def)
next
  case (Inr es)
  obtain evs r st where h:
    "apply_reader (it \<noteq> ''none'') sa assembler callback (read_entities (entity_bits it) es)
       (\<lambda>r. None, c) = ((evs, r), st)"
    by (metis surj_pair)
  have "list_all no_reader (fst (fst (apply_reader (it \<noteq> ''none'') sa assembler callback
          (read_entities (entity_bits it) es) (\<lambda>r. None, c))))"
    by (rule apply_reader_events) (rule no_reader_dispatch_event, rule assms, simp add: no_reader_def)
  then have "readers evs = []"
    using h by (simp add: readers_no_reader)
  then show ?thesis
    using Inr h by (cases r) (simp_all add: second_pass_def readers_append)
qed

lemma second_pass_Inl:
  "open_file env file = Inl e \<Longrightarrow> snd (second_pass env it sa assembler callback c file) = Inl e"
  by (simp add: second_pass_def)

lemma readers_show_incomplete: "readers (show_incomplete_relations c) = []"
  by (simp add: readers_plain show_incomplete_relations_plain)

lemmas branch_simps =
  readers_and_then snd_and_then emit_def read_relations_def first_pass_starts_def between_passes_def
  print_stats_def readers_append readers_show_incomplete open_dataset_def Let_def

lemma readers_main_collect_only:
  "readers (fst (main_collect_only env l file)) =
     (case open_file env file of Inl e \<Rightarrow> [] | Inr es \<Rightarrow> [{relation}, entity_bits (location_index_type l)])"
  by (cases "open_file env file")
     (simp_all add: main_collect_only_def branch_simps readers_second_pass no_reader_def split: sum.splits)

lemma readers_main_no_database:
  "readers (fst (main_no_database env l file)) =
     (case open_file env file of Inl e \<Rightarrow> [] | Inr es \<Rightarrow> [{relation}, entity_bits (location_index_type l)])"
  by (cases "open_file env file")
     (simp_all add: main_no_database_def branch_simps readers_second_pass no_reader_def split: sum.splits)

lemma readers_main_database:
  "readers (fst (main_database env l file)) = [] \<or>
   readers (fst (main_database env l file)) = [{relation}, entity_bits (location_index_type l)]"
  by (cases "open_file env file"; cases "create_dataset env (database_name l)")
     (simp_all add: main_database_def branch_simps readers_second_pass database_callback_no_reader split: sum.splits)

lemma returned_main_collect_only:
  "snd (main_collect_only env l file) = Inr u \<Longrightarrow> \<exists>es. open_file env file = Inr es"
  by (cases "open_file env file") (simp_all add: main_collect_only_def branch_simps)

lemma returned_main_no_database:
  "snd (main_no_database env l file) = Inr u \<Longrightarrow> \<exists>es. open_file env file = Inr es"
  by (cases "open_file env file") (simp_all add: main_no_database_def branch_simps)

lemma returned_main_database:
  "snd (main_database env l file) = Inr u \<Longrightarrow>
     readers (fst (main_database env l file)) = [{relation}, entity_bits (location_index_type l)]"
  by (cases "open_file env file"; cases "create_dataset env (database_name l)")
     (simp_all add: main_database_def branch_simps readers_second_pass database_callback_no_reader split: sum.splits)

lemma entity_bits_cases:
  "entity_bits t = (if t = ''none'' then {way} else {way, node})"
  by (auto simp: entity_bits_def)

lemma readers_main_tail: "readers main_tail = []"
  by (simp add: main_tail_def)

subsection \<open>The filter to invalid geometries\<close>

text \<open>
  Claim C2. When the filter to invalid geometries is on (\<^verbatim>\<open>only_invalid\<close> after the
  options are read), every feature that a run of \<^verbatim>\<open>main\<close> adds to the layer has the
  field \<^verbatim>\<open>valid\<close> false, and an area whose geometry passes the validity test is
  discarded by \<^verbatim>\<open>OutputOGR::area\<close> before a feature is made: the call has no event
  at all.
\<close>

theorem only_invalid_filter:
  assumes "option_loop (map_types env) (ofstream_opens env) opts locals_init = (es0, Inr l)"
    and "only_invalid l"
  shows "(\<forall>f. add_to_layer f \<in> set (fst (main env argv0 opts args)) \<longrightarrow> \<not> field_valid f) \<and>
         (\<forall>a g. create_multipolygon (ogr env) a = Inr g \<and> IsValid (ogr env) g \<longrightarrow>
            area (ogr env) (main_output l) a = ([], None))"
proof -
  have "list_all (\<lambda>e. \<forall>f. e = add_to_layer f \<longrightarrow> \<not> field_valid f) (fst (main env argv0 opts args))"
    by (rule main_events [OF assms(1)])
       (auto intro: database_callback_only_invalid [OF assms(2)])
  then have 1: "\<forall>f. add_to_layer f \<in> set (fst (main env argv0 opts args)) \<longrightarrow> \<not> field_valid f"
    by (auto simp: list_all_iff)
  have "check l"
    using option_loop_only_invalid_check [OF assms(1)] assms(2) by (simp add: locals_init_def)
  then have "m_check (main_output l)" "m_only_invalid (main_output l)"
    using assms(2) by (simp_all add: main_output_def set_check_def set_only_invalid_def)
  then have 2: "\<forall>a g. create_multipolygon (ogr env) a = Inr g \<and> IsValid (ogr env) g \<longrightarrow>
            area (ogr env) (main_output l) a = ([], None)"
    by (auto intro: area_valid_discarded)
  from 1 2 show ?thesis by simp
qed

theorem only_invalid_filter_witness:
  "option_loop (map_types example_env) (ofstream_opens example_env) [opt_o ''areas.db'', opt_f] locals_init =
     ([], Inr (locals_init\<lparr>database_name := ''areas.db'', only_invalid := True, check := True\<rparr>)) \<and>
   only_invalid (locals_init\<lparr>database_name := ''areas.db'', only_invalid := True, check := True\<rparr>) \<and>
   add_to_layer \<lparr>field_geom = ''MULTIPOLYGON (invalid)'', field_id = 21, field_valid = False,
      field_source = ''r'', field_orig_id = 10\<rparr>
     \<in> set (fst (main example_env ''oat_create_areas'' [opt_o ''areas.db'', opt_f] [''in.osm''])) \<and>
   \<not> field_valid \<lparr>field_geom = ''MULTIPOLYGON (invalid)'', field_id = 21, field_valid = False,
      field_source = ''r'', field_orig_id = 10\<rparr> \<and>
   create_multipolygon (ogr example_env) \<lparr>area_id = 2, from_way = True, orig_id = 1\<rparr> =
     Inr ''MULTIPOLYGON (valid)'' \<and>
   IsValid (ogr example_env) ''MULTIPOLYGON (valid)'' \<and>
   area (ogr example_env)
     (main_output (locals_init\<lparr>database_name := ''areas.db'', only_invalid := True, check := True\<rparr>))
     \<lparr>area_id = 2, from_way = True, orig_id = 1\<rparr> = ([], None)"
proof -
  let ?l = "locals_init\<lparr>database_name := ''areas.db'', only_invalid := True, check := True\<rparr>"
  let ?f = "\<lparr>field_geom = ''MULTIPOLYGON (invalid)'', field_id = 21, field_valid = False,
      field_source = ''r'', field_orig_id = 10\<rparr>"
  let ?a = "\<lparr>area_id = 2, from_way = True, orig_id = 1\<rparr>"
  have loop: "option_loop (map_types example_env) (ofstream_opens example_env)
      [opt_o ''areas.db'', opt_f] locals_init = ([], Inr ?l)"
    by simp
  have on: "only_invalid ?l"
    by simp
  have run: "add_to_layer ?f
     \<in> set (fst (main example_env ''oat_create_areas'' [opt_o ''areas.db'', opt_f] [''in.osm'']))"
    by code_simp
  have g1: "create_multipolygon (ogr example_env) ?a = Inr ''MULTIPOLYGON (valid)''"
    by (simp add: example_defs)
  have g2: "IsValid (ogr example_env) ''MULTIPOLYGON (valid)''"
    by (simp add: example_defs)
  note inst = only_invalid_filter [OF loop on, of "''oat_create_areas''" "[''in.osm'']"]
  from inst run have v: "\<not> field_valid ?f"
    by blast
  from inst g1 g2 have d: "area (ogr example_env) (main_output ?l) ?a = ([], None)"
    by blast
  from loop on run v g1 g2 d show ?thesis
    by blast
qed

subsection \<open>The filter switches the check on\<close>

text \<open>
  Claim C10. Whatever the options, after the option loop \<^verbatim>\<open>only_invalid\<close> implies
  \<^verbatim>\<open>check\<close>, and so does the output handler that \<^verbatim>\<open>main\<close> configures:
  \<^verbatim>\<open>m_only_invalid\<close> implies \<^verbatim>\<open>m_check\<close>. Without the check the flag keeps its
  initial value: every feature written has the field \<^verbatim>\<open>valid\<close> false.
\<close>

theorem only_invalid_enables_check:
  assumes "option_loop types opens opts locals_init = (es, Inr l)"
  shows "(only_invalid l \<longrightarrow> check l) \<and>
         (m_only_invalid (main_output l) \<longrightarrow> m_check (main_output l)) \<and>
         (\<forall>env out a f. \<not> m_check out \<and> add_to_layer f \<in> set (fst (area env out a)) \<longrightarrow> \<not> field_valid f)"
proof -
  have 1: "only_invalid l \<longrightarrow> check l"
    using option_loop_only_invalid_check [OF assms] by (simp add: locals_init_def)
  have 3: "\<not> field_valid f" if "\<not> m_check out" "add_to_layer f \<in> set (fst (area env out a))" for env out a f
  proof (cases "create_multipolygon env a")
    case (Inl e)
    with that show ?thesis by (cases e) (auto simp: area_def area_catch_def)
  next
    case (Inr geom)
    show ?thesis
    proof (cases "CreateFeature env (make_feature geom False a)")
      case None
      with Inr that show ?thesis by (auto simp: area_def Let_def make_feature_def split: if_splits)
    next
      case (Some e)
      with Inr that show ?thesis by (cases e) (auto simp: area_def Let_def area_catch_def split: if_splits)
    qed
  qed
  from 1 3 show ?thesis
    by (auto simp: main_output_def set_check_def set_only_invalid_def)
qed

theorem only_invalid_enables_check_witness:
  "option_loop [] (\<lambda>f. True) [opt_f] locals_init = ([], Inr (locals_init\<lparr>only_invalid := True, check := True\<rparr>)) \<and>
   only_invalid (locals_init\<lparr>only_invalid := True, check := True\<rparr>) \<and>
   check (locals_init\<lparr>only_invalid := True, check := True\<rparr>) \<and>
   m_only_invalid (main_output (locals_init\<lparr>only_invalid := True, check := True\<rparr>)) \<and>
   m_check (main_output (locals_init\<lparr>only_invalid := True, check := True\<rparr>))"
proof -
  have loop: "option_loop [] (\<lambda>f. True) [opt_f] locals_init = ([], Inr (locals_init\<lparr>only_invalid := True, check := True\<rparr>))"
    by simp
  from only_invalid_enables_check [OF loop] loop show ?thesis
    by (simp add: main_output_def set_only_invalid_def)
qed

subsection \<open>The type mask of the second pass\<close>

text \<open>
  Claim C3. The readers that a run of \<^verbatim>\<open>main\<close> opens are the reader of pass 1, for
  relations only, and then the reader of pass 2, whose type mask is ways only when the
  location index type is \<^verbatim>\<open>none\<close> and ways and nodes for every other index type. A
  run that returns has opened both; a run that opens none has ended before.
\<close>

theorem second_pass_entity_bits:
  assumes "option_loop (map_types env) (ofstream_opens env) opts locals_init = (es0, Inr l)"
  shows "(readers (fst (main env argv0 opts args)) = [] \<or>
          readers (fst (main env argv0 opts args)) =
            [{relation}, if location_index_type l = ''none'' then {way} else {way, node}]) \<and>
         (\<forall>code. snd (main env argv0 opts args) = returned code \<longrightarrow>
            readers (fst (main env argv0 opts args)) =
              [{relation}, if location_index_type l = ''none'' then {way} else {way, node}])"
proof -
  let ?bits = "if location_index_type l = ''none'' then {way} else {way, node}"
  let ?branch = "if collect_only l then main_collect_only env l (hd args)
                 else if database_name l = [] then main_no_database env l (hd args)
                 else main_database env l (hd args)"
  have es0: "readers es0 = []"
    using option_loop_events [of "map_types env" "ofstream_opens env" opts locals_init] assms
    by (simp add: readers_plain)
  have b1: "readers (fst ?branch) = [] \<or> readers (fst ?branch) = [{relation}, ?bits]"
    using readers_main_collect_only [of env l "hd args"] readers_main_no_database [of env l "hd args"]
      readers_main_database [of env l "hd args"]
    by (auto simp: entity_bits_cases split: sum.splits)
  have b2: "readers (fst ?branch) = [{relation}, ?bits]" if "snd ?branch = Inr u" for u
    using that returned_main_collect_only [of env l "hd args" u]
      returned_main_no_database [of env l "hd args" u] returned_main_database [of env l "hd args" u]
      readers_main_collect_only [of env l "hd args"] readers_main_no_database [of env l "hd args"]
    by (auto simp: entity_bits_cases split: if_splits)
  obtain es' r where b: "?branch = (es', r)" by (cases ?branch)
  show ?thesis
  proof (cases "length args \<noteq> 1")
    case True
    with assms es0 show ?thesis by (simp add: main_def readers_append)
  next
    case False
    show ?thesis
    proof (cases "create_map env (location_index_type l)")
      case (Some e)
      with assms es0 False show ?thesis by (simp add: main_def)
    next
      case None
      show ?thesis
      proof (cases r)
        case (Inl e)
        with assms es0 False None b b1 show ?thesis
          by (auto simp: main_def readers_append)
      next
        case (Inr u)
        with b b2 [of u] have "readers es' = [{relation}, ?bits]" by simp
        with assms es0 False None b Inr show ?thesis
          by (simp add: main_def readers_append readers_main_tail)
      qed
    qed
  qed
qed

theorem second_pass_entity_bits_witness:
  "option_loop (map_types example_env) (ofstream_opens example_env) [opt_i ''none''] locals_init =
     ([], Inr (locals_init\<lparr>location_index_type := ''none''\<rparr>)) \<and>
   snd (main example_env ''oat_create_areas'' [opt_i ''none''] [''in.osm'']) = returned exit_code_ok \<and>
   readers (fst (main example_env ''oat_create_areas'' [opt_i ''none''] [''in.osm''])) =
     [{relation}, {way}] \<and>
   option_loop (map_types example_env) (ofstream_opens example_env) [] locals_init =
     ([], Inr locals_init) \<and>
   snd (main example_env ''oat_create_areas'' [] [''in.osm'']) = returned exit_code_ok \<and>
   readers (fst (main example_env ''oat_create_areas'' [] [''in.osm''])) =
     [{relation}, {way, node}]"
proof -
  have l1: "option_loop (map_types example_env) (ofstream_opens example_env) [opt_i ''none''] locals_init =
     ([], Inr (locals_init\<lparr>location_index_type := ''none''\<rparr>))"
    by simp
  have r1: "snd (main example_env ''oat_create_areas'' [opt_i ''none''] [''in.osm'']) = returned exit_code_ok"
    by code_simp
  have l2: "option_loop (map_types example_env) (ofstream_opens example_env) [] locals_init =
     ([], Inr locals_init)"
    by simp
  have r2: "snd (main example_env ''oat_create_areas'' [] [''in.osm'']) = returned exit_code_ok"
    by code_simp
  have t2: "location_index_type locals_init \<noteq> ''none''"
    by (simp add: locals_init_def)
  from second_pass_entity_bits [OF l1, of "''oat_create_areas''" "[''in.osm'']"] r1
  have a: "readers (fst (main example_env ''oat_create_areas'' [opt_i ''none''] [''in.osm''])) =
     [{relation}, {way}]"
    by simp
  from second_pass_entity_bits [OF l2, of "''oat_create_areas''" "[''in.osm'']"] r2 t2
  have b: "readers (fst (main example_env ''oat_create_areas'' [] [''in.osm''])) =
     [{relation}, {way, node}]"
    by simp
  from l1 r1 a l2 r2 b show ?thesis by blast
qed

subsection \<open>Failures of a single area\<close>

text \<open>
  Claim C5, as amended. When the geometry factory throws \<^verbatim>\<open>osmium::geometry_error\<close>
  for an area, \<^verbatim>\<open>OutputOGR::area\<close> writes one message to \<^verbatim>\<open>std::cerr\<close> that
  carries the area's id, whether it comes from a way or a relation, its original id and
  the cause, and returns: the areas after it in the buffer are handled as if it had not
  been there.
\<close>

theorem geometry_error_reported:
  assumes "create_multipolygon env a = Inl (geometry_error what)"
  shows "area env out a =
           ([cerr (''Ignoring illegal geometry for area '' @ show_id (area_id a) @
                   '' created from '' @ (if from_way a then ''way'' else ''relation'') @
                   '' with id='' @ show_id (orig_id a) @ '' ('' @ what @ '').\<newline>'')], None) \<and>
         apply_each (area env out) (a # rest) =
           (fst (area env out a) @ fst (apply_each (area env out) rest),
            snd (apply_each (area env out) rest))"
  using assms by (simp add: area_def area_catch_def print_area_error_def)

theorem geometry_error_reported_witness:
  "create_multipolygon broken_ogr \<lparr>area_id = 21, from_way = False, orig_id = 10\<rparr> =
     Inl (geometry_error ''invalid area'') \<and>
   area broken_ogr OutputOGR_new \<lparr>area_id = 21, from_way = False, orig_id = 10\<rparr> =
     ([cerr ''Ignoring illegal geometry for area 21 created from relation with id=10 (invalid area).\<newline>''],
      None) \<and>
   apply_each (area broken_ogr OutputOGR_new)
     [\<lparr>area_id = 21, from_way = False, orig_id = 10\<rparr>, \<lparr>area_id = 2, from_way = True, orig_id = 1\<rparr>] =
     ([cerr ''Ignoring illegal geometry for area 21 created from relation with id=10 (invalid area).\<newline>'',
       add_to_layer \<lparr>field_geom = ''MULTIPOLYGON (valid)'', field_id = 2, field_valid = False,
         field_source = ''w'', field_orig_id = 1\<rparr>], None)"
proof -
  let ?a = "\<lparr>area_id = 21, from_way = False, orig_id = 10\<rparr>"
  let ?b = "\<lparr>area_id = 2, from_way = True, orig_id = 1\<rparr>"
  have h: "create_multipolygon broken_ogr ?a = Inl (geometry_error ''invalid area'')"
    by (simp add: broken_ogr_def)
  have s1: "show_id 21 = ''21''" by code_simp
  have s2: "show_id 10 = ''10''" by code_simp
  have b: "apply_each (area broken_ogr OutputOGR_new) [?b] =
      ([add_to_layer \<lparr>field_geom = ''MULTIPOLYGON (valid)'', field_id = 2, field_valid = False,
         field_source = ''w'', field_orig_id = 1\<rparr>], None)"
    by (simp add: area_def broken_ogr_def example_ogr_def OutputOGR_new_def make_feature_def)
  from geometry_error_reported [OF h, of OutputOGR_new "[?b]"] h b s1 s2
  show ?thesis by simp
qed

text \<open>
  The claim as stated fails on a write error: \<^verbatim>\<open>add_to_layer\<close> throws an exception
  that is no \<^verbatim>\<open>geometry_error\<close>, nothing catches it, nothing is reported and the run
  is terminated at the first area. The relation 10, which would have been ready at the
  next way, is never assembled.
\<close>

theorem write_error_counterexample:
  "main readonly_env ''oat_create_areas'' [opt_o ''areas.db''] [''in.osm''] =
     ([Dataset ''areas.db'',
       vout ''Starting first pass (reading relations)...\<newline>'',
       Reader ''in.osm'' {relation}, close_reader,
       vout ''First pass done.\<newline>'', vout ''Memory:\<newline>'', used_memory,
       vout ''Starting second pass (reading nodes and ways and assembling areas)...\<newline>'',
       Reader ''in.osm'' {way, node},
       to_handler_way located_way_1, to_assembler_way 1],
      terminated (gdal_error ''creating feature in layer areas failed''))"
  by code_simp

subsection \<open>The identifiers of a feature\<close>

lemma sint_ucast_32: "sint (ucast (x :: 64 word) :: 32 word) = signed_take_bit 31 (sint x)"
proof -
  have "sint (ucast x :: 32 word) = signed_take_bit 31 (uint (ucast x :: 32 word))"
    by (simp add: sint_uint)
  also have "uint (ucast x :: 32 word) = take_bit 32 (uint x)"
    by (simp add: unsigned_ucast_eq)
  also have "signed_take_bit 31 (take_bit 32 (uint x)) = signed_take_bit 31 (uint x)"
    by (simp add: signed_take_bit_take_bit)
  also have "\<dots> = signed_take_bit 31 (signed_take_bit 63 (uint x))"
    by (simp add: signed_take_bit_signed_take_bit)
  also have "signed_take_bit 63 (uint x) = sint x"
    by (simp add: sint_uint)
  finally show ?thesis .
qed

lemma sint_ucast_fits: "fits_int32 x \<Longrightarrow> sint (ucast x :: 32 word) = sint x"
  by (simp add: sint_ucast_32 fits_int32_def signed_take_bit_int_eq_self)

lemma ucast_fits_inj:
  assumes "fits_int32 x" and "fits_int32 y" and "(ucast x :: 32 word) = ucast y"
  shows "x = y"
proof -
  have "sint x = sint y"
    using assms sint_ucast_fits [of x] sint_ucast_fits [of y] by simp
  then show ?thesis by (rule signed_word_eqI)
qed

lemma ucast_eq_take_bit:
  "(ucast (x :: 64 word) :: 32 word) = ucast y \<longleftrightarrow> take_bit 32 x = take_bit 32 y"
proof
  assume "(ucast x :: 32 word) = ucast y"
  then have "bit (ucast x :: 32 word) n = bit (ucast y :: 32 word) n" for n by simp
  then have "(n < 32 \<and> bit x n) = (n < 32 \<and> bit y n)" for n
    by (simp add: bit_ucast_iff)
  then show "take_bit 32 x = take_bit 32 y"
    by (simp add: bit_eq_iff bit_take_bit_iff)
next
  assume "take_bit 32 x = take_bit 32 y"
  then have "bit (take_bit 32 x) n = bit (take_bit 32 y) n" for n by simp
  then have "(n < 32 \<and> bit x n) = (n < 32 \<and> bit y n)" for n
    by (simp add: bit_take_bit_iff)
  then have "\<forall>n<32. bit x n = bit y n"
    by blast
  then show "(ucast x :: 32 word) = ucast y"
    by (simp add: bit_eq_iff bit_ucast_iff)
qed

text \<open>
  Claim C8, as amended. The \<^verbatim>\<open>source\<close> field of a feature always tells an area from a
  way from an area from a relation. The \<^verbatim>\<open>id\<close> and \<^verbatim>\<open>orig_id\<close> fields hold the
  area id and the original id cut to 32 bits: two features have the same \<^verbatim>\<open>id\<close> field
  exactly when the area ids agree on their low 32 bits, and likewise for \<^verbatim>\<open>orig_id\<close>.
  So for an id that fits a signed 32-bit integer the field holds the id itself; two areas
  whose area ids fit have the same \<^verbatim>\<open>id\<close> field only when they have the same area id,
  and two areas whose original ids fit have the same \<^verbatim>\<open>source\<close> and \<^verbatim>\<open>orig_id\<close>
  fields only when they come from the same kind of object with the same original id.
\<close>

theorem persisted_ids:
  "(field_source (make_feature g v a) = field_source (make_feature g' v' b) \<longleftrightarrow> from_way a = from_way b) \<and>
   (field_id (make_feature g v a) = field_id (make_feature g' v' b) \<longleftrightarrow>
      take_bit 32 (area_id a) = take_bit 32 (area_id b)) \<and>
   (field_orig_id (make_feature g v a) = field_orig_id (make_feature g' v' b) \<longleftrightarrow>
      take_bit 32 (orig_id a) = take_bit 32 (orig_id b)) \<and>
   (fits_int32 (area_id a) \<longrightarrow> sint (field_id (make_feature g v a)) = sint (area_id a)) \<and>
   (fits_int32 (orig_id a) \<longrightarrow> sint (field_orig_id (make_feature g v a)) = sint (orig_id a)) \<and>
   (fits_int32 (area_id a) \<and> fits_int32 (area_id b) \<longrightarrow>
      (field_id (make_feature g v a) = field_id (make_feature g' v' b) \<longleftrightarrow> area_id a = area_id b)) \<and>
   (fits_int32 (orig_id a) \<and> fits_int32 (orig_id b) \<longrightarrow>
      ((field_source (make_feature g v a), field_orig_id (make_feature g v a)) =
         (field_source (make_feature g' v' b), field_orig_id (make_feature g' v' b)) \<longleftrightarrow>
       (from_way a, orig_id a) = (from_way b, orig_id b)))"
proof -
  have 1: "field_source (make_feature g v a) = field_source (make_feature g' v' b) \<longleftrightarrow> from_way a = from_way b"
    by (simp add: make_feature_def)
  have 2: "field_id (make_feature g v a) = field_id (make_feature g' v' b) \<longleftrightarrow>
      take_bit 32 (area_id a) = take_bit 32 (area_id b)"
    by (simp add: make_feature_def ucast_eq_take_bit)
  have 3: "field_orig_id (make_feature g v a) = field_orig_id (make_feature g' v' b) \<longleftrightarrow>
      take_bit 32 (orig_id a) = take_bit 32 (orig_id b)"
    by (simp add: make_feature_def ucast_eq_take_bit)
  have 4: "fits_int32 (area_id a) \<longrightarrow> sint (field_id (make_feature g v a)) = sint (area_id a)"
    by (simp add: make_feature_def sint_ucast_fits)
  have 5: "fits_int32 (orig_id a) \<longrightarrow> sint (field_orig_id (make_feature g v a)) = sint (orig_id a)"
    by (simp add: make_feature_def sint_ucast_fits)
  have 6: "fits_int32 (area_id a) \<and> fits_int32 (area_id b) \<longrightarrow>
      (field_id (make_feature g v a) = field_id (make_feature g' v' b) \<longleftrightarrow> area_id a = area_id b)"
    using ucast_fits_inj [of "area_id a" "area_id b"] by (auto simp: make_feature_def)
  have 7: "fits_int32 (orig_id a) \<and> fits_int32 (orig_id b) \<longrightarrow>
      ((field_source (make_feature g v a), field_orig_id (make_feature g v a)) =
         (field_source (make_feature g' v' b), field_orig_id (make_feature g' v' b)) \<longleftrightarrow>
       (from_way a, orig_id a) = (from_way b, orig_id b))"
    using ucast_fits_inj [of "orig_id a" "orig_id b"] by (auto simp: make_feature_def)
  from 1 2 3 4 5 6 7 show ?thesis by blast
qed

theorem persisted_ids_witness:
  "fits_int32 2 \<and> fits_int32 21 \<and> fits_int32 1 \<and> fits_int32 10 \<and>
   sint (field_id (make_feature ''g'' False \<lparr>area_id = 2, from_way = True, orig_id = 1\<rparr>)) = 2 \<and>
   sint (field_orig_id (make_feature ''g'' False \<lparr>area_id = 2, from_way = True, orig_id = 1\<rparr>)) = 1 \<and>
   field_id (make_feature ''g'' False \<lparr>area_id = 2, from_way = True, orig_id = 1\<rparr>) \<noteq>
     field_id (make_feature ''h'' False \<lparr>area_id = 21, from_way = False, orig_id = 10\<rparr>) \<and>
   (field_source (make_feature ''g'' False \<lparr>area_id = 2, from_way = True, orig_id = 1\<rparr>),
    field_orig_id (make_feature ''g'' False \<lparr>area_id = 2, from_way = True, orig_id = 1\<rparr>)) \<noteq>
     (field_source (make_feature ''h'' False \<lparr>area_id = 21, from_way = False, orig_id = 10\<rparr>),
      field_orig_id (make_feature ''h'' False \<lparr>area_id = 21, from_way = False, orig_id = 10\<rparr>)) \<and>
   \<not> fits_int32 8589934594 \<and> \<not> fits_int32 4294967297 \<and>
   field_source (make_feature ''g'' False \<lparr>area_id = 8589934594, from_way = True, orig_id = 4294967297\<rparr>) \<noteq>
     field_source (make_feature ''h'' False \<lparr>area_id = 8589934595, from_way = False, orig_id = 4294967297\<rparr>) \<and>
   field_orig_id (make_feature ''g'' False \<lparr>area_id = 8589934594, from_way = True, orig_id = 4294967297\<rparr>) =
     field_orig_id (make_feature ''h'' False \<lparr>area_id = 3, from_way = False, orig_id = 1\<rparr>)"
proof -
  have f: "fits_int32 2" "fits_int32 21" "fits_int32 1" "fits_int32 10"
    "\<not> fits_int32 8589934594" "\<not> fits_int32 4294967297"
    by (simp_all add: fits_int32_def)
  have t: "take_bit 32 (4294967297 :: 64 word) = take_bit 32 1"
    by code_simp
  from persisted_ids [of "''g''" False "\<lparr>area_id = 2, from_way = True, orig_id = 1\<rparr>"
      "''h''" False "\<lparr>area_id = 21, from_way = False, orig_id = 10\<rparr>"] f
  have a: "sint (field_id (make_feature ''g'' False \<lparr>area_id = 2, from_way = True, orig_id = 1\<rparr>)) = 2"
    "sint (field_orig_id (make_feature ''g'' False \<lparr>area_id = 2, from_way = True, orig_id = 1\<rparr>)) = 1"
    "field_id (make_feature ''g'' False \<lparr>area_id = 2, from_way = True, orig_id = 1\<rparr>) \<noteq>
     field_id (make_feature ''h'' False \<lparr>area_id = 21, from_way = False, orig_id = 10\<rparr>)"
    "(field_source (make_feature ''g'' False \<lparr>area_id = 2, from_way = True, orig_id = 1\<rparr>),
    field_orig_id (make_feature ''g'' False \<lparr>area_id = 2, from_way = True, orig_id = 1\<rparr>)) \<noteq>
     (field_source (make_feature ''h'' False \<lparr>area_id = 21, from_way = False, orig_id = 10\<rparr>),
      field_orig_id (make_feature ''h'' False \<lparr>area_id = 21, from_way = False, orig_id = 10\<rparr>))"
    by simp_all
  from persisted_ids [of "''g''" False "\<lparr>area_id = 8589934594, from_way = True, orig_id = 4294967297\<rparr>"
      "''h''" False "\<lparr>area_id = 8589934595, from_way = False, orig_id = 4294967297\<rparr>"]
  have b: "field_source (make_feature ''g'' False \<lparr>area_id = 8589934594, from_way = True, orig_id = 4294967297\<rparr>) \<noteq>
     field_source (make_feature ''h'' False \<lparr>area_id = 8589934595, from_way = False, orig_id = 4294967297\<rparr>)"
    by simp
  from persisted_ids [of "''g''" False "\<lparr>area_id = 8589934594, from_way = True, orig_id = 4294967297\<rparr>"
      "''h''" False "\<lparr>area_id = 3, from_way = False, orig_id = 1\<rparr>"] t
  have c: "field_orig_id (make_feature ''g'' False \<lparr>area_id = 8589934594, from_way = True, orig_id = 4294967297\<rparr>) =
     field_orig_id (make_feature ''h'' False \<lparr>area_id = 3, from_way = False, orig_id = 1\<rparr>)"
    by simp
  from f a b c show ?thesis by blast
qed


text \<open>
  The claim as stated fails beyond 32 bits. On a file with the ways 1 and 4294967297 the
  assembler makes two areas with different area ids and different original ids, and the
  run writes the very same feature twice.
\<close>

theorem persisted_ids_counterexample:
  "example_Assembler (database_assembler_config (locals_init\<lparr>database_name := ''areas.db''\<rparr>))
     (assemble_way example_way_1) = [\<lparr>area_id = 2, from_way = True, orig_id = 1\<rparr>] \<and>
   example_Assembler (database_assembler_config (locals_init\<lparr>database_name := ''areas.db''\<rparr>))
     (assemble_way (example_way_1\<lparr>way_id := 4294967297\<rparr>)) =
     [\<lparr>area_id = 8589934594, from_way = True, orig_id = 4294967297\<rparr>] \<and>
   features (fst (main wide_env ''oat_create_areas'' [opt_o ''areas.db''] [''in.osm''])) =
     [\<lparr>field_geom = ''MULTIPOLYGON (valid)'', field_id = 2, field_valid = False,
        field_source = ''w'', field_orig_id = 1\<rparr>,
      \<lparr>field_geom = ''MULTIPOLYGON (valid)'', field_id = 2, field_valid = False,
        field_source = ''w'', field_orig_id = 1\<rparr>]"
proof -
  have a: "example_Assembler (database_assembler_config (locals_init\<lparr>database_name := ''areas.db''\<rparr>))
     (assemble_way example_way_1) = [\<lparr>area_id = 2, from_way = True, orig_id = 1\<rparr>]"
    by (simp add: example_Assembler_def example_way_1_def)
  have b: "example_Assembler (database_assembler_config (locals_init\<lparr>database_name := ''areas.db''\<rparr>))
     (assemble_way (example_way_1\<lparr>way_id := 4294967297\<rparr>)) =
     [\<lparr>area_id = 8589934594, from_way = True, orig_id = 4294967297\<rparr>]"
    by (simp add: example_Assembler_def example_way_1_def)
  have c: "features (fst (main wide_env ''oat_create_areas'' [opt_o ''areas.db''] [''in.osm''])) =
     [\<lparr>field_geom = ''MULTIPOLYGON (valid)'', field_id = 2, field_valid = False,
        field_source = ''w'', field_orig_id = 1\<rparr>,
      \<lparr>field_geom = ''MULTIPOLYGON (valid)'', field_id = 2, field_valid = False,
        field_source = ''w'', field_orig_id = 1\<rparr>]"
    by code_simp
  from a b c show ?thesis by blast
qed

subsection \<open>The dummy assembler\<close>

lemma no_area_features: "list_all no_area es \<Longrightarrow> features es = [] \<and> dumped es = []"
  by (induction es rule: dumped.induct) (auto simp: no_area_def)

lemma no_area_dispatch_event: "no_area (dispatch_event d)"
  by (cases d) (auto simp: no_area_def)

lemma no_area_simps:
  "no_area (vout s)" "no_area (cerr s)" "no_area (vout_value s)" "no_area used_memory"
  "no_area (Reader f b)" "no_area close_reader" "no_area (to_handler_way v)"
  by (simp_all add: no_area_def)

lemma main_collect_only_no_area: "list_all no_area (fst (main_collect_only env l file))"
  unfolding main_collect_only_def
  by (intro and_then_events emit_events second_pass_events read_relations_events)
     (simp_all add: first_pass_starts_def between_passes_def print_stats_def no_area_dispatch_event
        no_area_simps)

lemma Assembler_update_simps:
  "second_pass (env\<lparr>Assembler := A\<rparr>) it sa asm cb c file = second_pass env it sa asm cb c file"
  "read_relations (env\<lparr>Assembler := A\<rparr>) c file = read_relations env c file"
  "open_dataset (env\<lparr>Assembler := A\<rparr>) name = open_dataset env name"
  by (simp_all add: second_pass_def read_relations_def open_dataset_def)



lemma main_collect_only_Assembler:
  "main_collect_only (env\<lparr>Assembler := A\<rparr>) l file = main_collect_only env l file"
  by (simp add: main_collect_only_def Assembler_update_simps)

text \<open>
  Claim C6, as amended. In collect-only mode the assembler is replaced: the run is the
  same whatever the assembler of the environment is, it adds no feature to the layer
  and writes no area to the dump stream, even with a database or a dump stream among the
  options. What is called instead is the \<^verbatim>\<open>DummyAssembler\<close>: for every way and every
  ready relation dispatched to it, it produces no area and leaves the output buffer as it
  is, and it leaves its statistics as they are, so that \<^verbatim>\<open>stats()\<close> is the value of
  a default-constructed \<^verbatim>\<open>area_stats\<close> before and after each call.
\<close>

theorem collect_only_records_nothing:
  assumes "option_loop (map_types env) (ofstream_opens env) opts locals_init = (es0, Inr l)"
    and "collect_only l"
  shows "main (env\<lparr>Assembler := A\<rparr>) argv0 opts args = main env argv0 opts args \<and>
         features (fst (main env argv0 opts args)) = [] \<and>
         dumped (fst (main env argv0 opts args)) = [] \<and>
         DummyAssembler_dispatch (area_stats0 env) d = [] \<and>
         stats (DummyAssembler_new (area_stats0 env) cfg) = area_stats0 env \<and>
         DummyAssembler_way (DummyAssembler_new (area_stats0 env) cfg) w buffer =
           (DummyAssembler_new (area_stats0 env) cfg, buffer) \<and>
         DummyAssembler_relation (DummyAssembler_new (area_stats0 env) cfg) r ws buffer =
           (DummyAssembler_new (area_stats0 env) cfg, buffer) \<and>
         stats (fst (DummyAssembler_way (DummyAssembler_new (area_stats0 env) cfg) w buffer)) =
           area_stats0 env \<and>
         stats (fst (DummyAssembler_relation (DummyAssembler_new (area_stats0 env) cfg) r ws buffer)) =
           area_stats0 env"
proof -
  have 1: "main (env\<lparr>Assembler := A\<rparr>) argv0 opts args = main env argv0 opts args"
    using assms by (simp add: main_def main_collect_only_Assembler split: option.splits)
  have es0: "es0 = []" using assms(1) by (rule option_loop_no_events)
  obtain es' r where b: "main_collect_only env l (hd args) = (es', r)"
    by (cases "main_collect_only env l (hd args)")
  have "list_all no_area es'"
    using main_collect_only_no_area [of env l "hd args"] b by simp
  then have "list_all no_area (fst (main env argv0 opts args))"
    using assms es0 b
    by (cases r) (auto simp: main_def main_tail_def no_area_simps split: option.splits)
  then have 2: "features (fst (main env argv0 opts args)) = [] \<and> dumped (fst (main env argv0 opts args)) = []"
    by (rule no_area_features)
  have 3: "DummyAssembler_dispatch (area_stats0 env) d = []"
    by (cases d) (simp_all add: DummyAssembler_dispatch_def DummyAssembler_way_def DummyAssembler_relation_def)
  from 1 2 3 show ?thesis
    by (simp add: stats_def DummyAssembler_new_def DummyAssembler_way_def DummyAssembler_relation_def)
qed

theorem collect_only_records_nothing_witness:
  "option_loop (map_types example_env) (ofstream_opens example_env) [opt_C, opt_o ''areas.db''] locals_init =
     ([], Inr (locals_init\<lparr>collect_only := True, database_name := ''areas.db''\<rparr>)) \<and>
   collect_only (locals_init\<lparr>collect_only := True, database_name := ''areas.db''\<rparr>) \<and>
   main (example_env\<lparr>Assembler := (\<lambda>c d. [])\<rparr>) ''oat_create_areas'' [opt_C, opt_o ''areas.db''] [''in.osm''] =
     main example_env ''oat_create_areas'' [opt_C, opt_o ''areas.db''] [''in.osm''] \<and>
   snd (main example_env ''oat_create_areas'' [opt_C, opt_o ''areas.db''] [''in.osm'']) = returned exit_code_ok \<and>
   relation_dispatches (fst (main example_env ''oat_create_areas'' [opt_C, opt_o ''areas.db''] [''in.osm''])) = [10] \<and>
   features (fst (main example_env ''oat_create_areas'' [opt_C, opt_o ''areas.db''] [''in.osm''])) = [] \<and>
   features (fst (main example_env ''oat_create_areas'' [opt_o ''areas.db''] [''in.osm''])) \<noteq> [] \<and>
   DummyAssembler_dispatch (area_stats0 example_env) (assemble_way example_way_1) = [] \<and>
   stats (fst (DummyAssembler_way (DummyAssembler_new (area_stats0 example_env) config_type) example_way_1 [])) = 0"
proof -
  let ?l = "locals_init\<lparr>collect_only := True, database_name := ''areas.db''\<rparr>"
  have loop: "option_loop (map_types example_env) (ofstream_opens example_env) [opt_C, opt_o ''areas.db''] locals_init =
     ([], Inr ?l)"
    by simp
  have on: "collect_only ?l"
    by simp
  have ret: "snd (main example_env ''oat_create_areas'' [opt_C, opt_o ''areas.db''] [''in.osm'']) = returned exit_code_ok"
    by code_simp
  have rd: "relation_dispatches (fst (main example_env ''oat_create_areas'' [opt_C, opt_o ''areas.db''] [''in.osm''])) = [10]"
    by code_simp
  have other: "features (fst (main example_env ''oat_create_areas'' [opt_o ''areas.db''] [''in.osm''])) \<noteq> []"
    by code_simp
  have s0: "area_stats0 example_env = 0"
    by (simp add: example_env_def)
  note inst = collect_only_records_nothing [OF loop on, of "\<lambda>c d. []" "''oat_create_areas''" "[''in.osm'']"
      "assemble_way example_way_1" config_type example_way_1 "[]"]
  from inst have a: "main (example_env\<lparr>Assembler := (\<lambda>c d. [])\<rparr>) ''oat_create_areas'' [opt_C, opt_o ''areas.db''] [''in.osm''] =
     main example_env ''oat_create_areas'' [opt_C, opt_o ''areas.db''] [''in.osm'']"
    by blast
  from inst have b: "features (fst (main example_env ''oat_create_areas'' [opt_C, opt_o ''areas.db''] [''in.osm''])) = []"
    by blast
  from inst have c: "DummyAssembler_dispatch (area_stats0 example_env) (assemble_way example_way_1) = []"
    by blast
  from inst s0 have d: "stats (fst (DummyAssembler_way (DummyAssembler_new (area_stats0 example_env) config_type) example_way_1 [])) = 0"
    by simp
  from loop on a ret rd b other c d show ?thesis by blast
qed

text \<open>
  The claim as stated says that the dummy assembler records statistics about its inputs:
  after a way of four nodes, and after a relation of two ways, its statistics are still
  those that it was constructed with.
\<close>

theorem DummyAssembler_stats_counterexample:
  "stats (DummyAssembler_new (0 :: nat) config_type) = 0 \<and>
   stats (fst (DummyAssembler_way (DummyAssembler_new (0 :: nat) config_type) example_way_1 [])) = 0 \<and>
   stats (fst (DummyAssembler_relation (DummyAssembler_new (0 :: nat) config_type) example_relation_10
      [example_way_1, example_way_2] [])) = 0"
  by (simp add: stats_def DummyAssembler_new_def DummyAssembler_way_def DummyAssembler_relation_def)

subsection \<open>The problem reporter\<close>









subsection \<open>Failures of the set-up\<close>

lemma main_args:
  assumes "option_loop (map_types env) (ofstream_opens env) opts locals_init = (es0, Inr l)"
    and "create_map env (location_index_type l) = None"
  shows "main env argv0 opts [file] =
    (case (if collect_only l then main_collect_only env l file
           else if database_name l = [] then main_no_database env l file
           else main_database env l file) of
       (es', Inl e) \<Rightarrow> (es0 @ es', terminated e)
     | (es', Inr u) \<Rightarrow> (es0 @ es' @ main_tail, returned exit_code_ok))"
  using assms by (simp add: main_def)




subsection \<open>The list of incomplete relations\<close>

text \<open>
  Claim C7. The branches of \<^verbatim>\<open>main\<close> that assemble areas end with
  \<^verbatim>\<open>if (show_incomplete) show_incomplete_relations(collector)\<close>; the collect-only
  branch does not. On the example file, whose relation 11 lacks its member way, a run
  with \<^verbatim>\<open>-C -r\<close> writes nothing to \<^verbatim>\<open>std::cerr\<close>, while the run with \<^verbatim>\<open>-r\<close> alone
  writes the list.
\<close>

theorem show_incomplete_collect_only:
  "main example_env ''oat_create_areas'' [opt_C, opt_r] [''in.osm''] =
     ([vout ''Starting first pass (reading relations)...\<newline>'',
       Reader ''in.osm'' {relation}, close_reader,
       vout ''First pass done.\<newline>'', vout ''Memory:\<newline>'', used_memory,
       vout ''Starting second pass (reading nodes and ways and assembling areas)...\<newline>'',
       Reader ''in.osm'' {way, node},
       to_handler_way located_way_1, to_assembler_way 1,
       to_handler_way located_way_2,
       to_assembler_relation 10 [located_way_1, located_way_2], close_reader,
       vout ''Second pass done\<newline>'', vout ''Memory:\<newline>'', used_memory,
       vout ''Stats:'', vout_value ''collector.stats()'', vout ''\<newline>''] @ main_tail,
      returned exit_code_ok) \<and>
   cerr ''Warning! Some member ways missing for these multipolygon relations: 11\<newline>''
     \<in> set (fst (main example_env ''oat_create_areas'' [opt_r] [''in.osm'']))"
proof -
  have a: "main example_env ''oat_create_areas'' [opt_C, opt_r] [''in.osm''] =
     ([vout ''Starting first pass (reading relations)...\<newline>'',
       Reader ''in.osm'' {relation}, close_reader,
       vout ''First pass done.\<newline>'', vout ''Memory:\<newline>'', used_memory,
       vout ''Starting second pass (reading nodes and ways and assembling areas)...\<newline>'',
       Reader ''in.osm'' {way, node},
       to_handler_way located_way_1, to_assembler_way 1,
       to_handler_way located_way_2,
       to_assembler_relation 10 [located_way_1, located_way_2], close_reader,
       vout ''Second pass done\<newline>'', vout ''Memory:\<newline>'', used_memory,
       vout ''Stats:'', vout_value ''collector.stats()'', vout ''\<newline>''] @ main_tail,
      returned exit_code_ok)"
    by code_simp
  have b: "cerr ''Warning! Some member ways missing for these multipolygon relations: 11\<newline>''
     \<in> set (fst (main example_env ''oat_create_areas'' [opt_r] [''in.osm'']))"
    by code_simp
  from a b show ?thesis by blast
qed

subsection \<open>The tracker\<close>

lemma finite_member_ways: "finite (member_ways p)"
  by (simp add: member_ways_def)

lemma member_arrives_sig: "sig_of (member_arrives w p) = sig_of p"
  by (simp add: sig_of_def member_arrives_def pending_id_def member_ways_def)

lemma card_diff_insert:
  assumes "finite M" and "w \<in> M" and "w \<notin> seen"
  shows "card (M - seen) - 1 = card (M - insert w seen)"
proof -
  have "M - insert w seen = (M - seen) - {w}" by auto
  moreover have "w \<in> M - seen" using assms by simp
  moreover have "finite (M - seen)" using assms by simp
  ultimately show ?thesis by (simp add: card_Diff_singleton)
qed

lemma arrived_sig: "sig_of (arrived c w p) = sig_of p"
  by (simp add: arrived_def member_arrives_sig)

lemma arrived_id: "pending_id (arrived c w p) = pending_id p"
  using arrived_sig [of c w p] by (simp add: sig_of_def)

lemma arrived_ways: "member_ways (arrived c w p) = member_ways p"
  using arrived_sig [of c w p] by (simp add: sig_of_def)

lemma way_arrives_arrived:
  "way_arrives w c =
     (\<lparr>pending = filter (\<lambda>p. \<not> is_ready c w p) (map (arrived c w) (pending c)),
       reverse_index = (\<lambda>v. filter (\<lambda>r. r \<notin> set (map pending_id
          (filter (is_ready c w) (map (arrived c w) (pending c))))) (reverse_index c v))\<rparr>,
      filter (is_ready c w) (map (arrived c w) (pending c)))"
  by (simp add: way_arrives_def Let_def arrived_def [abs_def])

lemma arrived_missing:
  assumes "tracker_inv c seen" and "way_id w \<notin> seen" and "p \<in> set (pending c)"
  shows "missing_count (arrived c w p) = card (member_ways p - insert (way_id w) seen)"
proof (cases "way_id w \<in> member_ways p")
  case True
  then have "references c w p"
    using assms by (simp add: tracker_inv_def references_def)
  then have "missing_count (arrived c w p) = card (member_ways p - seen) - 1"
    using assms by (simp add: arrived_def member_arrives_def tracker_inv_def)
  then show ?thesis
    using card_diff_insert [OF finite_member_ways True assms(2)] by simp
next
  case False
  then have "\<not> references c w p"
    using assms by (simp add: tracker_inv_def references_def)
  moreover have "member_ways p - insert (way_id w) seen = member_ways p - seen"
    using False by auto
  ultimately show ?thesis
    using assms by (simp add: arrived_def tracker_inv_def)
qed

lemma is_ready_completes:
  assumes "tracker_inv c seen" and "way_id w \<notin> seen" and "p \<in> set (pending c)"
  shows "is_ready c w (arrived c w p) \<longleftrightarrow> completes (way_id w) seen (sig_of p)"
proof -
  have r: "references c w (arrived c w p) \<longleftrightarrow> way_id w \<in> member_ways p"
    using assms by (simp add: references_def arrived_id tracker_inv_def)
  have "missing_count (arrived c w p) = 0 \<longleftrightarrow> member_ways p \<subseteq> insert (way_id w) seen"
    using arrived_missing [OF assms] finite_member_ways [of p] by auto
  with r show ?thesis
    by (simp add: is_ready_def completes_def sig_of_def)
qed

lemma filter_ready:
  assumes "tracker_inv c seen" and "way_id w \<notin> seen"
  shows "filter (is_ready c w) (map (arrived c w) (pending c)) =
           map (arrived c w) (filter (\<lambda>p. completes (way_id w) seen (sig_of p)) (pending c))"
proof -
  have "filter (is_ready c w) (map (arrived c w) (pending c)) =
          map (arrived c w) (filter (\<lambda>p. is_ready c w (arrived c w p)) (pending c))"
    by (simp add: filter_map o_def)
  also have "filter (\<lambda>p. is_ready c w (arrived c w p)) (pending c) =
          filter (\<lambda>p. completes (way_id w) seen (sig_of p)) (pending c)"
    by (rule filter_cong) (simp_all add: is_ready_completes [OF assms])
  finally show ?thesis .
qed

lemma filter_not_ready:
  assumes "tracker_inv c seen" and "way_id w \<notin> seen"
  shows "filter (\<lambda>p. \<not> is_ready c w p) (map (arrived c w) (pending c)) =
           map (arrived c w) (filter (\<lambda>p. \<not> completes (way_id w) seen (sig_of p)) (pending c))"
proof -
  have "filter (\<lambda>p. \<not> is_ready c w p) (map (arrived c w) (pending c)) =
          map (arrived c w) (filter (\<lambda>p. \<not> is_ready c w (arrived c w p)) (pending c))"
    by (simp add: filter_map o_def)
  also have "filter (\<lambda>p. \<not> is_ready c w (arrived c w p)) (pending c) =
          filter (\<lambda>p. \<not> completes (way_id w) seen (sig_of p)) (pending c)"
    by (rule filter_cong) (simp_all add: is_ready_completes [OF assms])
  finally show ?thesis .
qed

lemma way_arrives_ready:
  assumes "tracker_inv c seen" and "way_id w \<notin> seen"
  shows "map pending_id (snd (way_arrives w c)) =
           map fst (filter (completes (way_id w) seen) (map sig_of (pending c)))"
proof -
  have "map pending_id (snd (way_arrives w c)) =
          map pending_id (filter (\<lambda>p. completes (way_id w) seen (sig_of p)) (pending c))"
    by (simp add: way_arrives_arrived filter_ready [OF assms] arrived_id o_def)
  also have "\<dots> = map fst (map sig_of (filter (\<lambda>p. completes (way_id w) seen (sig_of p)) (pending c)))"
    by (simp add: sig_of_def o_def)
  also have "map sig_of (filter (\<lambda>p. completes (way_id w) seen (sig_of p)) (pending c)) =
          filter (completes (way_id w) seen) (map sig_of (pending c))"
    by (simp add: filter_map o_def)
  finally show ?thesis .
qed

lemma way_arrives_pending:
  assumes "tracker_inv c seen" and "way_id w \<notin> seen"
  shows "map sig_of (pending (fst (way_arrives w c))) =
           filter (\<lambda>rm. \<not> completes (way_id w) seen rm) (map sig_of (pending c))"
proof -
  have "map sig_of (pending (fst (way_arrives w c))) =
          map sig_of (filter (\<lambda>p. \<not> completes (way_id w) seen (sig_of p)) (pending c))"
    by (simp add: way_arrives_arrived filter_not_ready [OF assms] arrived_sig o_def)
  also have "\<dots> = filter (\<lambda>rm. \<not> completes (way_id w) seen rm) (map sig_of (pending c))"
    by (simp add: filter_map o_def)
  finally show ?thesis .
qed

lemma way_arrives_inv:
  assumes "tracker_inv c seen" and "way_id w \<notin> seen"
  shows "tracker_inv (fst (way_arrives w c)) (insert (way_id w) seen)"
proof -
  let ?Q = "\<lambda>p. completes (way_id w) seen (sig_of p)"
  let ?c' = "fst (way_arrives w c)"
  have pend: "pending ?c' = map (arrived c w) (filter (\<lambda>p. \<not> ?Q p) (pending c))"
    by (simp add: way_arrives_arrived filter_not_ready [OF assms])
  have ready: "set (map pending_id (snd (way_arrives w c))) = pending_id ` {p \<in> set (pending c). ?Q p}"
    by (simp add: way_arrives_arrived filter_ready [OF assms] arrived_id image_image)
  have ri: "reverse_index ?c' v =
      filter (\<lambda>r. r \<notin> set (map pending_id (snd (way_arrives w c)))) (reverse_index c v)" for v
    by (simp add: way_arrives_arrived)
  have dist: "distinct (map pending_id (pending c))"
    using assms(1) by (simp add: tracker_inv_def)
  have d: "distinct (map pending_id (pending ?c'))"
  proof -
    have "map pending_id (pending ?c') = map pending_id (filter (\<lambda>p. \<not> ?Q p) (pending c))"
      by (simp add: pend arrived_id o_def)
    then show ?thesis using dist by (simp add: distinct_map_filter)
  qed
  have each: "missing_count p' = card (member_ways p' - insert (way_id w) seen) \<and>
         (member_ways p' \<subseteq> insert (way_id w) seen \<longrightarrow> member_ways p' = {}) \<and>
         (\<forall>v. pending_id p' \<in> set (reverse_index ?c' v) \<longleftrightarrow> v \<in> member_ways p')"
    if "p' \<in> set (pending ?c')" for p'
  proof -
    from that pend obtain p where p: "p \<in> set (pending c)" "\<not> ?Q p" "p' = arrived c w p"
      by auto
    have 1: "missing_count p' = card (member_ways p' - insert (way_id w) seen)"
      using arrived_missing [OF assms p(1)] p(3) by (simp add: arrived_ways)
    have old: "member_ways p \<subseteq> seen \<longrightarrow> member_ways p = {}"
      using assms(1) p(1) by (simp add: tracker_inv_def)
    have 2: "member_ways p' \<subseteq> insert (way_id w) seen \<longrightarrow> member_ways p' = {}"
    proof
      assume a: "member_ways p' \<subseteq> insert (way_id w) seen"
      then have "member_ways p \<subseteq> insert (way_id w) seen" using p(3) by (simp add: arrived_ways)
      with p(2) have "way_id w \<notin> member_ways p" by (simp add: completes_def sig_of_def)
      with \<open>member_ways p \<subseteq> insert (way_id w) seen\<close> have "member_ways p \<subseteq> seen" by auto
      with old show "member_ways p' = {}" using p(3) by (simp add: arrived_ways)
    qed
    have notready: "pending_id p \<notin> set (map pending_id (snd (way_arrives w c)))"
    proof
      assume "pending_id p \<in> set (map pending_id (snd (way_arrives w c)))"
      with ready obtain q where q: "q \<in> set (pending c)" "?Q q" "pending_id q = pending_id p"
        by auto
      with dist p(1) have "q = p" by (meson distinct_map inj_onD)
      with q(2) p(2) show False by simp
    qed
    have 3: "pending_id p' \<in> set (reverse_index ?c' v) \<longleftrightarrow> v \<in> member_ways p'" for v
    proof -
      have "pending_id p' \<in> set (reverse_index ?c' v) \<longleftrightarrow> pending_id p \<in> set (reverse_index c v)"
        using notready p(3) by (simp add: ri arrived_id)
      also have "\<dots> \<longleftrightarrow> v \<in> member_ways p"
        using assms(1) p(1) by (simp add: tracker_inv_def)
      finally show ?thesis using p(3) by (simp add: arrived_ways)
    qed
    from 1 2 3 show ?thesis by blast
  qed
  from d each show ?thesis
    unfolding tracker_inv_def by blast
qed

lemma ready_relations_ready_ids:
  assumes "tracker_inv c seen" and "distinct (map way_id ws)" and "way_id ` set ws \<inter> seen = {}"
  shows "map (map pending_id) (ready_relations ws c) =
           ready_ids (map sig_of (pending c)) seen (map way_id ws)"
  using assms
proof (induction ws arbitrary: c seen)
  case Nil
  then show ?case by simp
next
  case (Cons w ws)
  have w: "way_id w \<notin> seen" using Cons.prems(3) by auto
  have inv: "tracker_inv (fst (way_arrives w c)) (insert (way_id w) seen)"
    by (rule way_arrives_inv [OF Cons.prems(1) w])
  have d: "distinct (map way_id ws)" using Cons.prems(2) by simp
  have disj: "way_id ` set ws \<inter> insert (way_id w) seen = {}"
    using Cons.prems(2,3) by auto
  from Cons.IH [OF inv d disj] show ?case
    by (simp add: way_arrives_ready [OF Cons.prems(1) w] way_arrives_pending [OF Cons.prems(1) w])
qed

lemma ready_ids_not_in:
  "r \<notin> fst ` set S \<Longrightarrow> r \<notin> set (concat (ready_ids S seen ws))"
proof (induction ws arbitrary: S seen)
  case Nil
  then show ?case by simp
next
  case (Cons w ws)
  have "r \<notin> fst ` set (filter (\<lambda>rm. \<not> completes w seen rm) S)"
    using Cons.prems by auto
  from Cons.IH [OF this] Cons.prems show ?case by auto
qed

lemma count_list_0: "x \<notin> set xs \<Longrightarrow> count_list xs x = 0"
  by (induction xs) auto

lemma count_list_distinct_1: "distinct xs \<Longrightarrow> x \<in> set xs \<Longrightarrow> count_list xs x = 1"
  by (induction xs) (auto simp: count_list_0)

lemma count_list_append': "count_list (xs @ ys) x = count_list xs x + count_list ys x"
  by (induction xs) auto

lemma distinct_fst_filter: "distinct (map fst S) \<Longrightarrow> distinct (map fst (filter P S))"
  by (simp add: distinct_map_filter)

lemma distinct_fst_unique:
  "distinct (map fst S) \<Longrightarrow> (r, m) \<in> set S \<Longrightarrow> (r, m') \<in> set S \<Longrightarrow> m = m'"
  by (meson eq_key_imp_eq_value)

lemma ready_ids_count:
  assumes "distinct (map fst S)" and "(r, m) \<in> set S" and "distinct ws" and "set ws \<inter> seen = {}"
    and "m \<subseteq> seen \<longrightarrow> m = {}"
  shows "count_list (concat (ready_ids S seen ws)) r = (if m \<noteq> {} \<and> m \<subseteq> seen \<union> set ws then 1 else 0)"
  using assms
proof (induction ws arbitrary: S seen)
  case Nil
  then show ?case by auto
next
  case (Cons w ws)
  let ?S' = "filter (\<lambda>rm. \<not> completes w seen rm) S"
  show ?case
  proof (cases "completes w seen (r, m)")
    case True
    have "r \<in> set (map fst (filter (completes w seen) S))"
      using Cons.prems(2) True by force
    then have 1: "count_list (map fst (filter (completes w seen) S)) r = 1"
      using distinct_fst_filter [OF Cons.prems(1)] by (simp add: count_list_distinct_1)
    have "r \<notin> fst ` set ?S'"
    proof
      assume "r \<in> fst ` set ?S'"
      then obtain m' where "(r, m') \<in> set S" "\<not> completes w seen (r, m')" by auto
      with distinct_fst_unique [OF Cons.prems(1) Cons.prems(2)] True show False by auto
    qed
    then have "r \<notin> set (concat (ready_ids ?S' (insert w seen) ws))"
      by (rule ready_ids_not_in)
    then have 2: "count_list (concat (ready_ids ?S' (insert w seen) ws)) r = 0"
      by (rule count_list_0)
    from True have "m \<noteq> {} \<and> m \<subseteq> seen \<union> set (w # ws)"
      by (auto simp: completes_def)
    with 1 2 show ?thesis by (simp add: count_list_append')
  next
    case False
    have "r \<notin> set (map fst (filter (completes w seen) S))"
    proof
      assume "r \<in> set (map fst (filter (completes w seen) S))"
      then obtain m' where "(r, m') \<in> set S" "completes w seen (r, m')" by auto
      with distinct_fst_unique [OF Cons.prems(1) Cons.prems(2)] False show False by auto
    qed
    then have 1: "count_list (map fst (filter (completes w seen) S)) r = 0"
      by (simp add: count_list_0)
    have in': "(r, m) \<in> set ?S'" using Cons.prems(2) False by simp
    have d: "distinct ws" and disj: "set ws \<inter> insert w seen = {}"
      using Cons.prems(3,4) by auto
    have notyet: "m \<subseteq> insert w seen \<longrightarrow> m = {}"
      using False Cons.prems(5) by (auto simp: completes_def)
    from Cons.IH [OF distinct_fst_filter [OF Cons.prems(1)] in' d disj notyet] 1
    show ?thesis by (simp add: count_list_append')
  qed
qed

lemma read_entities_relations:
  "collector_read_relations (read_entities {relation} es) c = fold prefilter_relation (relations_of es) c"
  by (induction es arbitrary: c rule: relations_of.induct) (simp_all add: read_entities_def)

lemma set_fold_register_way:
  "set (fold (register_way r) ws ri v) = set (ri v) \<union> (if v \<in> set ws then {r} else {})"
  by (induction ws arbitrary: ri) (auto simp: register_way_def)

lemma make_pending_sig: "sig_of (make_pending r) = (relation_id r, set (eligible_ways r))"
  by (simp add: sig_of_def make_pending_def pending_id_def member_ways_def eligible_ways_def o_def)

lemma prefilter_relation_index_inv: "index_inv c \<Longrightarrow> index_inv (prefilter_relation r c)"
  using make_pending_sig [of r]
  by (auto simp: index_inv_def prefilter_relation_def set_fold_register_way sig_of_def)

lemma fold_prefilter_index_inv: "index_inv c \<Longrightarrow> index_inv (fold prefilter_relation rs c)"
  by (induction rs arbitrary: c) (simp_all add: prefilter_relation_index_inv)

lemma fold_prefilter_pending:
  "pending (fold prefilter_relation rs c) =
     pending c @ map make_pending (filter (\<lambda>r. area_predicate (relation_tags r)) rs)"
  by (induction rs arbitrary: c) (simp_all add: prefilter_relation_def)

lemma first_pass_signature:
  "map sig_of (pending (fold prefilter_relation rs collector_new)) =
     map (\<lambda>r. (relation_id r, set (eligible_ways r))) (filter (\<lambda>r. area_predicate (relation_tags r)) rs)"
  by (simp add: fold_prefilter_pending collector_new_def make_pending_sig o_def)

lemma first_pass_inv:
  assumes "distinct (map relation_id rs)"
  shows "tracker_inv (fold prefilter_relation rs collector_new) {}"
proof -
  let ?c = "fold prefilter_relation rs collector_new"
  have ids: "map pending_id (pending ?c) = map relation_id (filter (\<lambda>r. area_predicate (relation_tags r)) rs)"
    using first_pass_signature [of rs] 
    by (metis (no_types, lifting) list.map_comp map_eq_conv sig_of_def fst_conv comp_apply)
  have d: "distinct (map pending_id (pending ?c))"
    using assms by (simp add: ids distinct_map_filter)
  have "index_inv collector_new" by (simp add: index_inv_def collector_new_def)
  then have ii: "index_inv ?c" by (rule fold_prefilter_index_inv)
  have each: "missing_count p = card (member_ways p - {}) \<and>
         (member_ways p \<subseteq> {} \<longrightarrow> member_ways p = {}) \<and>
         (\<forall>w. pending_id p \<in> set (reverse_index ?c w) \<longleftrightarrow> w \<in> member_ways p)"
    if "p \<in> set (pending ?c)" for p
  proof -
    from that obtain r where r: "p = make_pending r"
      by (auto simp: fold_prefilter_pending collector_new_def)
    have 1: "missing_count p = card (member_ways p - {})"
      using make_pending_sig [of r]
      by (simp add: r sig_of_def make_pending_def length_remdups_card_conv)
    have 3: "pending_id p \<in> set (reverse_index ?c w) \<longleftrightarrow> w \<in> member_ways p" for w
    proof
      assume "pending_id p \<in> set (reverse_index ?c w)"
      with ii obtain q where q: "q \<in> set (pending ?c)" "pending_id q = pending_id p" "w \<in> member_ways q"
        by (auto simp: index_inv_def)
      with d that have "q = p" by (meson distinct_map inj_onD)
      with q show "w \<in> member_ways p" by simp
    next
      assume "w \<in> member_ways p"
      with ii that show "pending_id p \<in> set (reverse_index ?c w)"
        by (auto simp: index_inv_def)
    qed
    from 1 3 show ?thesis by blast
  qed
  from d each show ?thesis unfolding tracker_inv_def by blast
qed

subsection \<open>The dispatches of a run\<close>

lemma relation_dispatches_append:
  "relation_dispatches (xs @ ys) = relation_dispatches xs @ relation_dispatches ys"
  by (induction xs rule: relation_dispatches.induct) auto

lemma way_id_resolve: "way_id (resolve idx w) = way_id w"
  by (simp add: resolve_def)

lemma resolved_ways_ids:
  "way \<in> bits \<Longrightarrow> map way_id (resolved_ways nl (read_entities bits es) idx) = map way_id (ways_of es)"
  by (induction es arbitrary: idx rule: ways_of.induct)
     (simp_all add: read_entities_def way_id_resolve)

lemma pass2_ways_ids: "map way_id (pass2_ways it es) = map way_id (ways_of es)"
  unfolding pass2_ways_def by (rule resolved_ways_ids) (simp add: entity_bits_def)

lemma count_list_prefix: "prefix xs ys \<Longrightarrow> count_list xs x \<le> count_list ys x"
  by (auto simp: prefix_def count_list_append')

lemma marks_append: "marks (xs @ ys) = marks xs @ marks ys"
  by (simp add: marks_def)

lemma marks_none: "list_all (\<lambda>e. \<not> is_mark e) es \<Longrightarrow> marks es = []"
  by (induction es) (simp_all add: marks_def)

lemma handled_ways_append: "handled_ways (xs @ ys) = handled_ways xs @ handled_ways ys"
  by (induction xs rule: handled_ways.induct) auto

lemma reader_events_append: "reader_events (xs @ ys) = reader_events xs @ reader_events ys"
  by (induction xs rule: reader_events.induct) auto

lemma handled_ways_marks: "handled_ways (marks xs) = handled_ways xs"
  unfolding marks_def by (induction xs rule: handled_ways.induct) auto

lemma reader_events_marks: "reader_events (marks xs) = reader_events xs"
  unfolding marks_def by (induction xs rule: reader_events.induct) auto

lemma relation_dispatches_marks: "relation_dispatches (marks xs) = relation_dispatches xs"
  unfolding marks_def by (induction xs rule: relation_dispatches.induct) auto

lemma handled_ways_dispatched: "handled_ways (map dispatched ps) = []"
  by (induction ps) (simp_all add: dispatched_def)

lemma reader_events_dispatched: "reader_events (map dispatched ps) = []"
  by (induction ps) (simp_all add: dispatched_def)

lemma relation_dispatches_dispatched: "relation_dispatches (map dispatched ps) = map pending_id ps"
  by (induction ps) (simp_all add: dispatched_def)

lemma handled_ways_tracker_events: "handled_ways (tracker_events ws c) = ws"
  by (induction ws arbitrary: c) (simp_all add: handled_ways_append handled_ways_dispatched)

lemma relation_dispatches_tracker_events:
  "relation_dispatches (tracker_events ws c) = concat (map (map pending_id) (ready_relations ws c))"
  by (induction ws arbitrary: c) (simp_all add: relation_dispatches_append relation_dispatches_dispatched)

lemma prefix_handled_ways: "prefix xs ys \<Longrightarrow> prefix (handled_ways xs) (handled_ways ys)"
  by (auto simp: prefix_def handled_ways_append)

lemma prefix_relation_dispatches: "prefix xs ys \<Longrightarrow> prefix (relation_dispatches xs) (relation_dispatches ys)"
  by (auto simp: prefix_def relation_dispatches_append)

lemma arrived_cache:
  assumes "tracker_inv c (way_id ` set sl)" and "cache_inv c sl" and "q \<in> set (pending c)"
  shows "member_cache (arrived c w q) = filter (\<lambda>v. way_id v \<in> member_ways q) (sl @ [w])"
proof -
  have r: "references c w q \<longleftrightarrow> way_id w \<in> member_ways q"
    using assms(1,3) by (simp add: tracker_inv_def references_def)
  have "member_cache q = filter (\<lambda>v. way_id v \<in> member_ways q) sl"
    using assms(2,3) by (simp add: cache_inv_def)
  with r show ?thesis
    by (simp add: arrived_def member_arrives_def)
qed

lemma way_arrives_cache:
  assumes "tracker_inv c (way_id ` set sl)" and "cache_inv c sl" and "way_id w \<notin> way_id ` set sl"
  shows "cache_inv (fst (way_arrives w c)) (sl @ [w]) \<and>
         (\<forall>p \<in> set (snd (way_arrives w c)).
            member_cache p = filter (\<lambda>v. way_id v \<in> member_ways p) (sl @ [w]))"
  using arrived_cache [OF assms(1,2)]
  by (auto simp: cache_inv_def way_arrives_arrived arrived_ways)

lemma way_arrives_from:
  "p \<in> set (snd (way_arrives w c)) \<or> p \<in> set (pending (fst (way_arrives w c))) \<Longrightarrow>
     \<exists>q \<in> set (pending c). p = arrived c w q"
  by (auto simp: way_arrives_arrived)

lemma tracker_events_ids:
  "to_assembler_relation i cache \<in> set (tracker_events ws c) \<Longrightarrow> i \<in> pending_id ` set (pending c)"
proof (induction ws arbitrary: c)
  case Nil
  then show ?case by simp
next
  case (Cons w ws)
  from Cons.prems consider
      (now) "to_assembler_relation i cache \<in> set (map dispatched (snd (way_arrives w c)))"
    | (later) "to_assembler_relation i cache \<in> set (tracker_events ws (fst (way_arrives w c)))"
    by auto
  then show ?case
  proof cases
    case now
    then obtain p where "p \<in> set (snd (way_arrives w c))" "pending_id p = i"
      by (auto simp: dispatched_def)
    with way_arrives_from [of p w c] show ?thesis
      by (auto simp: arrived_id)
  next
    case later
    from Cons.IH [OF later] obtain p where "p \<in> set (pending (fst (way_arrives w c)))" "pending_id p = i"
      by auto
    with way_arrives_from [of p w c] show ?thesis
      by (auto simp: arrived_id)
  qed
qed

lemma pending_unique:
  "tracker_inv c seen \<Longrightarrow> p \<in> set (pending c) \<Longrightarrow> q \<in> set (pending c) \<Longrightarrow> pending_id p = pending_id q \<Longrightarrow> p = q"
  unfolding tracker_inv_def by (meson distinct_map inj_onD)

lemma tracker_events_when:
  assumes "tracker_inv c (way_id ` set sl)" and "cache_inv c sl"
    and "distinct (map way_id ws)" and "way_id ` set ws \<inter> way_id ` set sl = {}"
    and "p0 \<in> set (pending c)"
    and "tracker_events ws c = A @ to_assembler_relation (pending_id p0) cache # B"
  shows "handled_ways A \<noteq> [] \<and> way_id (last (handled_ways A)) \<in> member_ways p0 \<and>
         member_ways p0 \<subseteq> way_id ` set (sl @ handled_ways A) \<and>
         cache = filter (\<lambda>v. way_id v \<in> member_ways p0) (sl @ handled_ways A) \<and>
         reader_events A = []"
  using assms
proof (induction ws arbitrary: c sl A p0)
  case Nil
  then show ?case by simp
next
  case (Cons w ws)
  let ?D = "to_assembler_relation (pending_id p0) cache"
  let ?ready = "snd (way_arrives w c)"
  let ?c' = "fst (way_arrives w c)"
  let ?seen = "way_id ` set sl"
  let ?M = "member_ways p0"
  have w: "way_id w \<notin> ?seen" using Cons.prems(4) by auto
  have inv': "tracker_inv ?c' (way_id ` set (sl @ [w]))"
    using way_arrives_inv [OF Cons.prems(1) w] by simp
  note cache' = way_arrives_cache [OF Cons.prems(1,2) w]
  from Cons.prems(6) obtain A' where A: "A = to_handler_way w # A'"
    and eq: "map dispatched ?ready @ tracker_events ws ?c' = A' @ ?D # B"
    by (cases A) auto
  from eq consider
      (now) us where "map dispatched ?ready = A' @ ?D # us"
    | (later) us where "A' = map dispatched ?ready @ us" "tracker_events ws ?c' = us @ ?D # B"
    by (auto simp: append_eq_append_conv2 append_eq_Cons_conv Cons_eq_append_conv)
  then show ?case
  proof cases
    case now
    then have "?D \<in> set (map dispatched ?ready)" by simp
    then obtain p where p: "p \<in> set ?ready" "pending_id p = pending_id p0" "member_cache p = cache"
      by (auto simp: dispatched_def)
    from way_arrives_from [of p w c] p(1) obtain q where q: "q \<in> set (pending c)" "p = arrived c w q"
      by auto
    have "q = p0"
      using pending_unique [OF Cons.prems(1) q(1) Cons.prems(5)] p(2) q(2) by (simp add: arrived_id)
    with q have p0: "p = arrived c w p0" by simp
    have "pending_id p \<in> pending_id ` set ?ready"
      using p(1) by (rule imageI)
    then have "pending_id p0 \<in> set (map pending_id ?ready)"
      using p(2) by simp
    then have "pending_id p0 \<in> set (map fst (filter (completes (way_id w) ?seen) (map sig_of (pending c))))"
      by (simp only: way_arrives_ready [OF Cons.prems(1) w])
    then obtain q' where q': "q' \<in> set (pending c)" "completes (way_id w) ?seen (sig_of q')"
        "pending_id q' = pending_id p0"
      by (auto simp: sig_of_def)
    have "q' = p0"
      using pending_unique [OF Cons.prems(1) q'(1) Cons.prems(5)] q'(3) by simp
    with q'(2) have comp: "way_id w \<in> ?M" "?M \<subseteq> insert (way_id w) ?seen"
      by (simp_all add: completes_def sig_of_def)
    have c: "cache = filter (\<lambda>v. way_id v \<in> ?M) (sl @ [w])"
      using cache' p(1,3) p0 by (auto simp: arrived_ways)
    have "set A' \<subseteq> set (map dispatched ?ready)"
      using now by (metis set_append Un_upper1)
    then obtain ps where ps: "A' = map dispatched ps"
      using now by (metis append_eq_map_conv)
    have h: "handled_ways A = [w]" and re: "reader_events A = []"
      by (simp_all add: A ps handled_ways_dispatched reader_events_dispatched)
    from comp c h re show ?thesis by auto
  next
    case later
    have "?D \<in> set (tracker_events ws ?c')" using later(2) by simp
    from tracker_events_ids [OF this] obtain p' where p': "p' \<in> set (pending ?c')" "pending_id p' = pending_id p0"
      by auto
    from way_arrives_from [of p' w c] p'(1) obtain q where q: "q \<in> set (pending c)" "p' = arrived c w q"
      by auto
    have "q = p0"
      using pending_unique [OF Cons.prems(1) q(1) Cons.prems(5)] p'(2) q(2) by (simp add: arrived_id)
    with q have mw: "member_ways p' = ?M" by (simp add: arrived_ways)
    have d: "distinct (map way_id ws)" using Cons.prems(3) by simp
    have disj: "way_id ` set ws \<inter> way_id ` set (sl @ [w]) = {}"
      using Cons.prems(3,4) by auto
    have eq': "tracker_events ws ?c' = us @ to_assembler_relation (pending_id p') cache # B"
      using later(2) p'(2) by simp
    from Cons.IH [OF inv' cache' [THEN conjunct1] d disj p'(1) eq']
    have ih: "handled_ways us \<noteq> []" "way_id (last (handled_ways us)) \<in> ?M"
      "?M \<subseteq> way_id ` set ((sl @ [w]) @ handled_ways us)"
      "cache = filter (\<lambda>v. way_id v \<in> ?M) ((sl @ [w]) @ handled_ways us)"
      "reader_events us = []"
      by (simp_all add: mw)
    have h: "handled_ways A = w # handled_ways us" and re: "reader_events A = reader_events us"
      by (simp_all add: A later(1) handled_ways_append handled_ways_dispatched
          reader_events_append reader_events_dispatched)
    from ih h re show ?thesis by auto
  qed
qed

lemma marks_no_mark: "list_all no_mark es \<Longrightarrow> marks es = []"
  by (induction es) (simp_all add: marks_def no_mark_def)

lemma apply_each_marks:
  assumes "\<And>b. list_all no_mark (fst (callback b))"
  shows "prefix (marks (fst (apply_each (dispatch_to assembler callback) ds)))
           (marks (map dispatch_event ds)) \<and>
         (snd (apply_each (dispatch_to assembler callback) ds) = None \<longrightarrow>
            marks (fst (apply_each (dispatch_to assembler callback) ds)) =
            marks (map dispatch_event ds))"
proof (induction ds)
  case Nil
  then show ?case by (simp add: marks_def)
next
  case (Cons d ds)
  have cb: "marks (fst (callback (assembler d))) = []"
    by (rule marks_no_mark) (rule assms)
  have h: "marks (fst (dispatch_to assembler callback d)) = marks [dispatch_event d]"
    using cb marks_append [of "[dispatch_event d]" "fst (callback (assembler d))"]
    by (simp add: dispatch_to_def)
  obtain evs r where d: "dispatch_to assembler callback d = (evs, r)"
    by (cases "dispatch_to assembler callback d")
  with h have evs: "marks evs = marks [dispatch_event d]" by simp
  have sp: "marks (map dispatch_event (d # ds)) = marks [dispatch_event d] @ marks (map dispatch_event ds)"
    using marks_append [of "[dispatch_event d]" "map dispatch_event ds"] by simp
  show ?case
  proof (cases r)
    case None
    with Cons d evs show ?thesis
      unfolding sp by (simp add: marks_append)
  next
    case (Some e)
    with d evs show ?thesis
      unfolding sp by simp
  qed
qed

lemma marks_of_ready:
  "marks (map dispatch_event
      (map (\<lambda>p. assemble_relation (pending_relation p) (member_cache p)) ready @
       (if b then [assemble_way w] else []))) = map dispatched ready"
  by (induction ready) (simp_all add: marks_def dispatched_def pending_id_def)

lemma handle_way_marks:
  assumes "\<And>b. list_all no_mark (fst (callback b))"
  shows "prefix (marks (fst (fst (handle_way nl sa assembler callback w st))))
           (to_handler_way (if nl then resolve (fst st) w else w) #
            map dispatched (snd (way_arrives (if nl then resolve (fst st) w else w) (snd st)))) \<and>
         (snd (fst (handle_way nl sa assembler callback w st)) = None \<longrightarrow>
            marks (fst (fst (handle_way nl sa assembler callback w st))) =
            to_handler_way (if nl then resolve (fst st) w else w) #
            map dispatched (snd (way_arrives (if nl then resolve (fst st) w else w) (snd st)))) \<and>
         snd (handle_way nl sa assembler callback w st) =
           (fst st, fst (way_arrives (if nl then resolve (fst st) w else w) (snd st)))"
proof -
  let ?w = "if nl then resolve (fst st) w else w"
  let ?ds = "map (\<lambda>p. assemble_relation (pending_relation p) (member_cache p)) (snd (way_arrives ?w (snd st))) @
            (if sa ?w then [assemble_way ?w] else [])"
  have ds: "marks (map dispatch_event ?ds) = map dispatched (snd (way_arrives ?w (snd st)))"
    by (rule marks_of_ready)
  have hw: "handle_way nl sa assembler callback w st =
      ((to_handler_way ?w # fst (apply_each (dispatch_to assembler callback) ?ds),
        snd (apply_each (dispatch_to assembler callback) ?ds)), fst st, fst (way_arrives ?w (snd st)))"
    by (simp add: handle_way_def Let_def)
  have m: "marks (to_handler_way ?w # es) = to_handler_way ?w # marks es" for es
    by (simp add: marks_def)
  from apply_each_marks [of callback assembler ?ds, OF assms] show ?thesis
    unfolding hw ds by (simp add: m)
qed

lemma apply_reader_marks:
  assumes "\<And>b. list_all no_mark (fst (callback b))"
  shows "prefix (marks (fst (fst (apply_reader nl sa assembler callback es st))))
           (tracker_events (resolved_ways nl es (fst st)) (snd st)) \<and>
         (snd (fst (apply_reader nl sa assembler callback es st)) = None \<longrightarrow>
            marks (fst (fst (apply_reader nl sa assembler callback es st))) =
            tracker_events (resolved_ways nl es (fst st)) (snd st))"
proof (induction es arbitrary: st)
  case Nil
  then show ?case by (simp add: marks_def)
next
  case (Cons x es)
  show ?case
  proof (cases x)
    case (a_node n)
    with Cons [of "if nl then (index_put n (fst st), snd st) else st"] show ?thesis
      by (cases nl) simp_all
  next
    case (a_relation r)
    with Cons [of st] show ?thesis by simp
  next
    case (a_way w)
    let ?w = "if nl then resolve (fst st) w else w"
    obtain evs r st' where h: "handle_way nl sa assembler callback w st = ((evs, r), st')"
      by (metis surj_pair)
    from handle_way_marks [of callback nl sa assembler w st, OF assms] h
    have p: "prefix (marks evs) (to_handler_way ?w # map dispatched (snd (way_arrives ?w (snd st))))"
      and e: "r = None \<longrightarrow> marks evs = to_handler_way ?w # map dispatched (snd (way_arrives ?w (snd st)))"
      and st': "st' = (fst st, fst (way_arrives ?w (snd st)))"
      by simp_all
    show ?thesis
    proof (cases r)
      case None
      obtain evs' r' st'' where a: "apply_reader nl sa assembler callback es st' = ((evs', r'), st'')"
        by (metis surj_pair)
      from Cons [of st'] a st'
      have ih: "prefix (marks evs')
            (tracker_events (resolved_ways nl es (fst st)) (fst (way_arrives ?w (snd st))))"
        and ih2: "r' = None \<longrightarrow> marks evs' =
            tracker_events (resolved_ways nl es (fst st)) (fst (way_arrives ?w (snd st)))"
        by simp_all
      from None e have eq: "marks evs = to_handler_way ?w # map dispatched (snd (way_arrives ?w (snd st)))"
        by simp
      show ?thesis
        using a_way h None a ih ih2 eq
        by (simp add: marks_append)
    next
      case (Some ex)
      have "prefix (to_handler_way ?w # map dispatched (snd (way_arrives ?w (snd st))))
          (tracker_events (resolved_ways nl (a_way w # es) (fst st)) (snd st))"
        by simp
      with p have "prefix (marks evs) (tracker_events (resolved_ways nl (a_way w # es) (fst st)) (snd st))"
        by (rule prefix_order.trans)
      with a_way h Some show ?thesis
        by simp
    qed
  qed
qed

lemma marks_Cons_mark: "is_mark e \<Longrightarrow> marks (e # es) = e # marks es"
  by (simp add: marks_def)

lemma second_pass_marks:
  assumes "\<And>b. list_all no_mark (fst (callback b))" and "open_file env file = Inr es"
  shows "prefix (marks (fst (second_pass env it sa assembler callback c file)))
           (Reader file (entity_bits it) # tracker_events (pass2_ways it es) c @ [close_reader]) \<and>
         (\<forall>c'. snd (second_pass env it sa assembler callback c file) = Inr c' \<longrightarrow>
            marks (fst (second_pass env it sa assembler callback c file)) =
            Reader file (entity_bits it) # tracker_events (pass2_ways it es) c @ [close_reader])"
proof -
  obtain evs r st where h:
    "apply_reader (it \<noteq> ''none'') sa assembler callback (read_entities (entity_bits it) es)
       (\<lambda>r. None, c) = ((evs, r), st)"
    by (metis surj_pair)
  from apply_reader_marks [of callback "it \<noteq> ''none''" sa assembler
      "read_entities (entity_bits it) es" "(\<lambda>r. None, c)", OF assms(1)] h
  have p: "prefix (marks evs) (tracker_events (pass2_ways it es) c)"
    and e: "r = None \<longrightarrow> marks evs = tracker_events (pass2_ways it es) c"
    by (simp_all add: pass2_ways_def)
  show ?thesis
  proof (cases r)
    case None
    with assms(2) h e show ?thesis
      by (simp add: second_pass_def marks_Cons_mark marks_append marks_def)
  next
    case (Some ex)
    from p have "prefix (marks evs) (tracker_events (pass2_ways it es) c @ [close_reader])"
      by (rule prefix_order.trans) simp
    with assms(2) h Some show ?thesis
      by (simp add: second_pass_def marks_Cons_mark)
  qed
qed

lemma marks_and_then:
  "marks (fst (and_then m f)) =
     marks (fst m) @ (case snd m of Inl e \<Rightarrow> [] | Inr x \<Rightarrow> marks (fst (f x)))"
  by (auto simp: and_then_def marks_append split: prod.splits sum.splits)

lemma marks_show_incomplete: "marks (show_incomplete_relations c) = []"
  by (simp add: show_incomplete_relations_def Let_def marks_def)

lemma area_no_mark: "list_all no_mark (fst (area env out a))"
proof (cases "create_multipolygon env a")
  case (Inl e)
  then show ?thesis
    by (cases e) (auto simp: area_def area_catch_def no_mark_def)
next
  case (Inr geom)
  show ?thesis
  proof (cases "CreateFeature env (make_feature geom (if m_check out then IsValid env geom else False) a)")
    case None
    with Inr show ?thesis by (auto simp: area_def Let_def no_mark_def)
  next
    case (Some e)
    with Inr show ?thesis
      by (cases e) (auto simp: area_def Let_def area_catch_def no_mark_def)
  qed
qed

lemma database_callback_no_mark: "list_all no_mark (fst (database_callback env l b))"
  unfolding database_callback_def
  using area_no_mark [of "ogr env" "main_output l"]
  by (auto intro!: apply_each_events simp: no_mark_def)

lemmas mark_simps =
  marks_and_then snd_and_then emit_def read_relations_def first_pass_starts_def between_passes_def
  print_stats_def marks_append marks_show_incomplete open_dataset_def Let_def
  pass1_collector_def run_marks_def marks_Cons_mark

lemma marks_literals:
  "marks [vout a] = []" "marks (vout a # es) = marks es" "marks (used_memory # es) = marks es"
  "marks (vout_value a # es) = marks es" "marks (unlink a # es) = marks es"
  "marks (Dataset a # es) = marks es" "marks [] = []"
  by (simp_all add: marks_def)

lemma main_collect_only_marks:
  assumes "open_file env file = Inr es"
  shows "prefix (marks (fst (main_collect_only env l file))) (run_marks file (location_index_type l) es) \<and>
         (\<forall>u. snd (main_collect_only env l file) = Inr u \<longrightarrow>
            marks (fst (main_collect_only env l file)) = run_marks file (location_index_type l) es)"
  using second_pass_marks [of "\<lambda>buffer. ([], None)" env "file" es "location_index_type l"
      "\<lambda>w. is_closed w \<and> area_tags env (way_tags w)" "DummyAssembler_dispatch (area_stats0 env)"
      "pass1_collector es", OF _ assms] assms
  by (auto simp: main_collect_only_def mark_simps marks_literals split: sum.splits)

lemma main_no_database_marks:
  assumes "open_file env file = Inr es"
  shows "prefix (marks (fst (main_no_database env l file))) (run_marks file (location_index_type l) es) \<and>
         (\<forall>u. snd (main_no_database env l file) = Inr u \<longrightarrow>
            marks (fst (main_no_database env l file)) = run_marks file (location_index_type l) es)"
  using second_pass_marks [of "\<lambda>buffer. ([], None)" env "file" es "location_index_type l"
      "standalone_area env (main_assembler_config l)" "Assembler env (main_assembler_config l)"
      "pass1_collector es", OF _ assms] assms
  by (auto simp: main_no_database_def mark_simps marks_literals split: sum.splits)

lemma main_database_marks:
  assumes "open_file env file = Inr es"
  shows "prefix (marks (fst (main_database env l file))) (run_marks file (location_index_type l) es) \<and>
         (\<forall>u. snd (main_database env l file) = Inr u \<longrightarrow>
            marks (fst (main_database env l file)) = run_marks file (location_index_type l) es)"
  using second_pass_marks [of "database_callback env l" env "file" es "location_index_type l"
      "standalone_area env (database_assembler_config l)" "Assembler env (database_assembler_config l)"
      "pass1_collector es", OF database_callback_no_mark assms] assms
  by (cases "create_dataset env (database_name l)")
     (auto simp: main_database_def mark_simps marks_literals split: sum.splits)

lemma main_marks:
  assumes "option_loop (map_types env) (ofstream_opens env) opts locals_init = (es0, Inr l)"
    and "create_map env (location_index_type l) = None"
    and "open_file env file = Inr es"
  shows "prefix (marks (fst (main env argv0 opts [file]))) (run_marks file (location_index_type l) es) \<and>
         (\<forall>code. snd (main env argv0 opts [file]) = returned code \<longrightarrow>
            marks (fst (main env argv0 opts [file])) = run_marks file (location_index_type l) es)"
proof -
  have es0: "es0 = []" using assms(1) by (rule option_loop_no_events)
  have tail: "marks main_tail = []" by (simp add: main_tail_def marks_def)
  let ?branch = "if collect_only l then main_collect_only env l file
                 else if database_name l = [] then main_no_database env l file
                 else main_database env l file"
  have b: "prefix (marks (fst ?branch)) (run_marks file (location_index_type l) es) \<and>
         (\<forall>u. snd ?branch = Inr u \<longrightarrow> marks (fst ?branch) = run_marks file (location_index_type l) es)"
    using main_collect_only_marks [OF assms(3), of l] main_no_database_marks [OF assms(3), of l]
      main_database_marks [OF assms(3), of l]
    by simp
  obtain es' r where br: "?branch = (es', r)" by (cases ?branch)
  show ?thesis
    using b br es0 tail
    by (cases r) (simp_all add: main_args [OF assms(1,2)] marks_append)
qed

lemma resolved_ways_append:
  "resolved_ways nl (xs @ ys) idx = resolved_ways nl xs idx @ resolved_ways nl ys (index_after nl xs idx)"
  by (induction xs arbitrary: idx rule: ways_of.induct) simp_all

lemma index_after_append:
  "index_after nl (xs @ ys) idx = index_after nl ys (index_after nl xs idx)"
  by (induction xs arbitrary: idx rule: ways_of.induct) simp_all

lemma index_after_False: "index_after False xs idx = idx"
  by (induction xs arbitrary: idx rule: ways_of.induct) simp_all

lemma index_after_location_before:
  "index_after True (read_entities {way, node} es) (\<lambda>r. None) = location_before es"
proof (induction es rule: rev_induct)
  case Nil
  then show ?case by (simp add: read_entities_def location_before_def)
next
  case (snoc e es)
  show ?case
  proof (cases e)
    case (a_node x)
    have "index_after True (read_entities {way, node} (es @ [e])) (\<lambda>r. None) =
        index_put x (location_before es)"
      using snoc a_node by (simp add: read_entities_def index_after_append)
    also have "\<dots> = location_before (es @ [e])"
      using a_node by (auto simp: index_put_def location_before_def)
    finally show ?thesis .
  next
    case (a_way w)
    with snoc show ?thesis
      by (auto simp: read_entities_def index_after_append location_before_def)
  next
    case (a_relation r)
    with snoc show ?thesis
      by (auto simp: read_entities_def index_after_append location_before_def)
  qed
qed

lemma read_entities_way:
  "way \<in> bits \<Longrightarrow>
     read_entities bits (before @ a_way w # after) =
       read_entities bits before @ a_way w # read_entities bits after"
  by (simp add: read_entities_def)

lemma pass2_ways_split:
  "\<exists>rest. pass2_ways it (before @ a_way w # after) = pass2_ways it before @ located it before w # rest"
proof (cases "it = ''none''")
  case True
  then show ?thesis
    by (simp add: pass2_ways_def read_entities_way entity_bits_def resolved_ways_append located_def)
next
  case False
  have b: "entity_bits it = {way, node}" using False by (auto simp: entity_bits_def)
  show ?thesis
    using False
    by (simp add: pass2_ways_def read_entities_way b resolved_ways_append located_def resolve_def
        index_after_location_before)
qed

lemma distinct_way_unique:
  "distinct (map way_id ws) \<Longrightarrow> v \<in> set ws \<Longrightarrow> v' \<in> set ws \<Longrightarrow> way_id v = way_id v' \<Longrightarrow> v = v'"
  by (meson distinct_map inj_onD)

lemma way_id_located: "way_id (located it before w) = way_id w"
  by (simp add: located_def)

lemma first_pass_cache: "cache_inv (fold prefilter_relation rs collector_new) []"
  by (auto simp: cache_inv_def fold_prefilter_pending collector_new_def make_pending_def)

lemma first_pass_member:
  assumes "r \<in> set rs" and "area_predicate (relation_tags r)"
  shows "make_pending r \<in> set (pending (fold prefilter_relation rs collector_new))"
  using assms by (simp add: fold_prefilter_pending)

lemma split_run_marks:
  assumes "Reader f {relation} # close_reader # Reader f b # te @ [close_reader] =
             mx @ to_assembler_relation i ws # Z"
  shows "\<exists>A B. mx = Reader f {relation} # close_reader # Reader f b # A \<and>
               te = A @ to_assembler_relation i ws # B"
proof -
  from assms obtain m1 where 1: "mx = Reader f {relation} # m1"
    and e1: "close_reader # Reader f b # te @ [close_reader] = m1 @ to_assembler_relation i ws # Z"
    by (cases mx) auto
  from e1 obtain m2 where 2: "m1 = close_reader # m2"
    and e2: "Reader f b # te @ [close_reader] = m2 @ to_assembler_relation i ws # Z"
    by (cases m1) auto
  from e2 obtain A where 3: "m2 = Reader f b # A"
    and e3: "te @ [close_reader] = A @ to_assembler_relation i ws # Z"
    by (cases m2) auto
  from e3 obtain B where "te = A @ to_assembler_relation i ws # B"
    by (cases Z rule: rev_cases) auto
  with 1 2 3 show ?thesis by blast
qed

lemma ready_relations_count:
  assumes "distinct (map relation_id (relations_of es))"
    and "distinct (map way_id ws)"
    and "r \<in> set (relations_of es)"
    and "area_predicate (relation_tags r)"
  shows "count_list (concat (map (map pending_id) (ready_relations ws (pass1_collector es)))) (relation_id r) =
           (if eligible_ways r \<noteq> [] \<and> set (eligible_ways r) \<subseteq> way_id ` set ws then 1 else 0)"
proof -
  let ?c = "pass1_collector es"
  let ?S = "map sig_of (pending ?c)"
  let ?m = "set (eligible_ways r)"
  have c: "?c = fold prefilter_relation (relations_of es) collector_new"
    unfolding pass1_collector_def by (rule read_entities_relations)
  have inv: "tracker_inv ?c {}"
    unfolding c by (rule first_pass_inv [OF assms(1)])
  have S: "?S = map (\<lambda>r. (relation_id r, set (eligible_ways r)))
      (filter (\<lambda>r. area_predicate (relation_tags r)) (relations_of es))"
    unfolding c by (rule first_pass_signature)
  have dS: "distinct (map fst ?S)"
    using assms(1) by (simp add: S o_def distinct_map_filter)
  have inS: "(relation_id r, ?m) \<in> set ?S"
    using assms(3,4) by (auto simp: S)
  have ids: "map (map pending_id) (ready_relations ws ?c) = ready_ids ?S {} (map way_id ws)"
    by (rule ready_relations_ready_ids [OF inv assms(2)]) simp
  show ?thesis
    using ready_ids_count [OF dS inS, of "map way_id ws" "{}"] assms(2)
    by (simp add: ids)
qed

text \<open>
  Claim C1, as amended. Take a run of \<^verbatim>\<open>main\<close> on a file whose relation ids and way
  ids are unique, and a relation of the file that matches the area predicate. The run
  hands the relation to the assembler at most once; a run that returns has handed it over
  exactly once when the relation has an eligible member way and all its eligible member
  ways are in the file, and never otherwise. Whenever the run hands the relation to the
  assembler, the reader of pass 1 has been opened and closed and the reader of pass 2 is
  open; all the member ways of the relation have been handed to the handler of the
  collector, and the last way handed to it is one of them; and the ways that go to the
  assembler with the relation are these member ways, in the order and in the form in
  which the handler got them. Every way reaches the handler with its geometry resolved:
  it is the way of the file where each node reference has the location of the last node
  with this id before the way, and none when there is no such location (with the index
  type \<^verbatim>\<open>none\<close> the way is as the file has it).
\<close>

theorem relation_dispatched_once:
  assumes "option_loop (map_types env) (ofstream_opens env) opts locals_init = (es0, Inr l)"
    and "create_map env (location_index_type l) = None"
    and "open_file env file = Inr es"
    and "distinct (map relation_id (relations_of es))"
    and "distinct (map way_id (ways_of es))"
    and "r \<in> set (relations_of es)"
    and "area_predicate (relation_tags r)"
  shows "count_list (relation_dispatches (fst (main env argv0 opts [file]))) (relation_id r) \<le> 1 \<and>
         (\<forall>code. snd (main env argv0 opts [file]) = returned code \<longrightarrow>
            count_list (relation_dispatches (fst (main env argv0 opts [file]))) (relation_id r) =
              (if eligible_ways r \<noteq> [] \<and> set (eligible_ways r) \<subseteq> way_id ` set (ways_of es)
               then 1 else 0)) \<and>
         (\<forall>xs ys ws. fst (main env argv0 opts [file]) = xs @ to_assembler_relation (relation_id r) ws # ys \<longrightarrow>
            reader_events xs =
              [Reader file {relation}, close_reader, Reader file (entity_bits (location_index_type l))] \<and>
            handled_ways xs \<noteq> [] \<and>
            way_id (last (handled_ways xs)) \<in> set (eligible_ways r) \<and>
            set (eligible_ways r) \<subseteq> way_id ` set (handled_ways xs) \<and>
            ws = filter (\<lambda>v. way_id v \<in> set (eligible_ways r)) (handled_ways xs)) \<and>
         (\<forall>before w after. es = before @ a_way w # after \<longrightarrow>
            (\<forall>v \<in> set (handled_ways (fst (main env argv0 opts [file]))).
               way_id v = way_id w \<longrightarrow> v = located (location_index_type l) before w))"
proof -
  let ?T = "fst (main env argv0 opts [file])"
  let ?it = "location_index_type l"
  let ?ws = "pass2_ways ?it es"
  let ?c = "pass1_collector es"
  let ?TE = "tracker_events ?ws ?c"
  let ?F = "run_marks file ?it es"
  let ?M = "set (eligible_ways r)"
  note m = main_marks [OF assms(1,2,3), of argv0]
  from m have pre: "prefix (marks ?T) ?F" by simp
  have ids: "map way_id ?ws = map way_id (ways_of es)"
    by (rule pass2_ways_ids)
  have img: "way_id ` set ?ws = way_id ` set (ways_of es)"
    using arg_cong [OF ids, of set] by simp
  have d: "distinct (map way_id ?ws)"
    using assms(5) by (simp add: ids)
  have rdF: "relation_dispatches ?F = concat (map (map pending_id) (ready_relations ?ws ?c))"
    by (simp add: run_marks_def relation_dispatches_append relation_dispatches_tracker_events)
  have cF: "count_list (relation_dispatches ?F) (relation_id r) =
      (if eligible_ways r \<noteq> [] \<and> ?M \<subseteq> way_id ` set (ways_of es) then 1 else 0)"
    unfolding rdF using ready_relations_count [OF assms(4) d assms(6,7)] by (simp add: img)
  have "prefix (relation_dispatches (marks ?T)) (relation_dispatches ?F)"
    using pre by (rule prefix_relation_dispatches)
  then have "prefix (relation_dispatches ?T) (relation_dispatches ?F)"
    by (simp add: relation_dispatches_marks)
  from count_list_prefix [OF this, of "relation_id r"] cF
  have 1: "count_list (relation_dispatches ?T) (relation_id r) \<le> 1"
    by (simp split: if_splits)
  have 2: "count_list (relation_dispatches ?T) (relation_id r) =
      (if eligible_ways r \<noteq> [] \<and> ?M \<subseteq> way_id ` set (ways_of es) then 1 else 0)"
    if "snd (main env argv0 opts [file]) = returned code" for code
  proof -
    from m that have "marks ?T = ?F" by simp
    then have "relation_dispatches ?T = relation_dispatches ?F"
      using relation_dispatches_marks [of ?T] by simp
    with cF show ?thesis by simp
  qed
  have c: "?c = fold prefilter_relation (relations_of es) collector_new"
    unfolding pass1_collector_def by (rule read_entities_relations)
  have inv: "tracker_inv ?c (way_id ` set [])"
    unfolding c using first_pass_inv [OF assms(4)] by simp
  have cache: "cache_inv ?c []"
    unfolding c by (rule first_pass_cache)
  have p0: "make_pending r \<in> set (pending ?c)"
    unfolding c by (rule first_pass_member [OF assms(6,7)])
  have pid: "pending_id (make_pending r) = relation_id r"
    and pm: "member_ways (make_pending r) = ?M"
    using make_pending_sig [of r] by (simp_all add: sig_of_def)
  have 3: "reader_events xs = [Reader file {relation}, close_reader, Reader file (entity_bits ?it)] \<and>
        handled_ways xs \<noteq> [] \<and> way_id (last (handled_ways xs)) \<in> ?M \<and>
        ?M \<subseteq> way_id ` set (handled_ways xs) \<and>
        ws = filter (\<lambda>v. way_id v \<in> ?M) (handled_ways xs)"
    if T: "?T = xs @ to_assembler_relation (relation_id r) ws # ys" for xs ys ws
  proof -
    have "marks ?T = marks xs @ to_assembler_relation (relation_id r) ws # marks ys"
      unfolding T by (simp add: marks_append marks_Cons_mark)
    with pre obtain Z where "?F = marks xs @ to_assembler_relation (relation_id r) ws # Z"
      by (auto simp: prefix_def)
    then have "Reader file {relation} # close_reader # Reader file (entity_bits ?it) # ?TE @ [close_reader] =
        marks xs @ to_assembler_relation (relation_id r) ws # Z"
      by (simp add: run_marks_def)
    from split_run_marks [OF this] obtain A B
      where mx: "marks xs = Reader file {relation} # close_reader # Reader file (entity_bits ?it) # A"
        and te: "?TE = A @ to_assembler_relation (relation_id r) ws # B"
      by blast
    from te have te': "?TE = A @ to_assembler_relation (pending_id (make_pending r)) ws # B"
      by (simp add: pid)
    have disj: "way_id ` set ?ws \<inter> way_id ` set [] = {}" by simp
    from tracker_events_when [OF inv cache d disj p0 te']
    have a: "handled_ways A \<noteq> []" "way_id (last (handled_ways A)) \<in> ?M"
      "?M \<subseteq> way_id ` set (handled_ways A)"
      "ws = filter (\<lambda>v. way_id v \<in> ?M) (handled_ways A)" "reader_events A = []"
      by (simp_all add: pm)
    have h: "handled_ways xs = handled_ways A"
      using handled_ways_marks [of xs] by (simp add: mx)
    have re: "reader_events xs = [Reader file {relation}, close_reader, Reader file (entity_bits ?it)]"
      using reader_events_marks [of xs] a(5) by (simp add: mx)
    from a(1-4) h re show ?thesis by simp
  qed
  have hF: "handled_ways ?F = ?ws"
    by (simp add: run_marks_def handled_ways_append handled_ways_tracker_events)
  have "prefix (handled_ways (marks ?T)) (handled_ways ?F)"
    using pre by (rule prefix_handled_ways)
  then have hp: "prefix (handled_ways ?T) ?ws"
    by (simp add: handled_ways_marks hF)
  have 4: "v = located ?it before w"
    if es: "es = before @ a_way w # after" and v: "v \<in> set (handled_ways ?T)" "way_id v = way_id w"
    for before w after v
  proof -
    from hp v(1) have vin: "v \<in> set ?ws"
      by (auto simp: prefix_def)
    from pass2_ways_split [of ?it before w after] es
    have "located ?it before w \<in> set ?ws"
      by auto
    from distinct_way_unique [OF d vin this] v(2) show ?thesis
      by (simp add: way_id_located)
  qed
  from 1 2 3 4 show ?thesis by blast
qed

theorem relation_dispatched_once_witness:
  "option_loop (map_types example_env) (ofstream_opens example_env) [] locals_init = ([], Inr locals_init) \<and>
   create_map example_env (location_index_type locals_init) = None \<and>
   open_file example_env ''in.osm'' = Inr example_file \<and>
   distinct (map relation_id (relations_of example_file)) \<and>
   distinct (map way_id (ways_of example_file)) \<and>
   example_relation_10 \<in> set (relations_of example_file) \<and>
   area_predicate (relation_tags example_relation_10) \<and>
   eligible_ways example_relation_10 = [1, 2] \<and>
   snd (main example_env ''oat_create_areas'' [] [''in.osm'']) = returned exit_code_ok \<and>
   fst (main example_env ''oat_create_areas'' [] [''in.osm'']) =
     [vout ''Starting first pass (reading relations)...\<newline>'',
      Reader ''in.osm'' {relation}, close_reader,
      vout ''First pass done.\<newline>'', vout ''Memory:\<newline>'', used_memory,
      vout ''Starting second pass (reading nodes and ways and assembling areas)...\<newline>'',
      Reader ''in.osm'' {way, node},
      to_handler_way located_way_1, to_assembler_way 1,
      to_handler_way located_way_2] @
     to_assembler_relation (relation_id example_relation_10) [located_way_1, located_way_2] #
     ([close_reader,
       vout ''Second pass done\<newline>'', vout ''Memory:\<newline>'', used_memory,
       vout ''Stats:'', vout_value ''collector.stats()'', vout ''\<newline>''] @ main_tail) \<and>
   count_list (relation_dispatches (fst (main example_env ''oat_create_areas'' [] [''in.osm'']))) 10 = 1 \<and>
   reader_events
     [vout ''Starting first pass (reading relations)...\<newline>'',
      Reader ''in.osm'' {relation}, close_reader,
      vout ''First pass done.\<newline>'', vout ''Memory:\<newline>'', used_memory,
      vout ''Starting second pass (reading nodes and ways and assembling areas)...\<newline>'',
      Reader ''in.osm'' {way, node},
      to_handler_way located_way_1, to_assembler_way 1,
      to_handler_way located_way_2] =
     [Reader ''in.osm'' {relation}, close_reader, Reader ''in.osm'' {way, node}] \<and>
   handled_ways
     [vout ''Starting first pass (reading relations)...\<newline>'',
      Reader ''in.osm'' {relation}, close_reader,
      vout ''First pass done.\<newline>'', vout ''Memory:\<newline>'', used_memory,
      vout ''Starting second pass (reading nodes and ways and assembling areas)...\<newline>'',
      Reader ''in.osm'' {way, node},
      to_handler_way located_way_1, to_assembler_way 1,
      to_handler_way located_way_2] = [located_way_1, located_way_2] \<and>
   way_id located_way_2 \<in> set (eligible_ways example_relation_10) \<and>
   example_file =
     [a_node \<lparr>node_id = 1, node_location = Some (0, 0)\<rparr>,
      a_node \<lparr>node_id = 2, node_location = Some (0, 1)\<rparr>,
      a_node \<lparr>node_id = 3, node_location = Some (1, 1)\<rparr>,
      a_way example_way_1] @ a_way example_way_2 #
     [a_relation example_relation_10, a_relation example_relation_11, a_relation example_relation_12] \<and>
   located_way_2 \<in> set (handled_ways (fst (main example_env ''oat_create_areas'' [] [''in.osm'']))) \<and>
   way_id located_way_2 = way_id example_way_2 \<and>
   located_way_2 =
     located (location_index_type locals_init)
       [a_node \<lparr>node_id = 1, node_location = Some (0, 0)\<rparr>,
        a_node \<lparr>node_id = 2, node_location = Some (0, 1)\<rparr>,
        a_node \<lparr>node_id = 3, node_location = Some (1, 1)\<rparr>,
        a_way example_way_1] example_way_2"
proof -
  let ?T = "fst (main example_env ''oat_create_areas'' [] [''in.osm''])"
  let ?xs = "[vout ''Starting first pass (reading relations)...\<newline>'',
      Reader ''in.osm'' {relation}, close_reader,
      vout ''First pass done.\<newline>'', vout ''Memory:\<newline>'', used_memory,
      vout ''Starting second pass (reading nodes and ways and assembling areas)...\<newline>'',
      Reader ''in.osm'' {way, node},
      to_handler_way located_way_1, to_assembler_way 1,
      to_handler_way located_way_2]"
  let ?ys = "[close_reader,
       vout ''Second pass done\<newline>'', vout ''Memory:\<newline>'', used_memory,
       vout ''Stats:'', vout_value ''collector.stats()'', vout ''\<newline>''] @ main_tail"
  let ?before = "[a_node \<lparr>node_id = 1, node_location = Some (0, 0)\<rparr>,
        a_node \<lparr>node_id = 2, node_location = Some (0, 1)\<rparr>,
        a_node \<lparr>node_id = 3, node_location = Some (1, 1)\<rparr>,
        a_way example_way_1]"
  let ?after = "[a_relation example_relation_10, a_relation example_relation_11, a_relation example_relation_12]"
  have h1: "option_loop (map_types example_env) (ofstream_opens example_env) [] locals_init = ([], Inr locals_init)"
    by simp
  have h2: "create_map example_env (location_index_type locals_init) = None"
    by (simp add: example_env_def)
  have h3: "open_file example_env ''in.osm'' = Inr example_file"
    by (simp add: example_env_def)
  have h4: "distinct (map relation_id (relations_of example_file))"
    by code_simp
  have h5: "distinct (map way_id (ways_of example_file))"
    by code_simp
  have h6: "example_relation_10 \<in> set (relations_of example_file)"
    by (simp add: example_file_def)
  have h7: "area_predicate (relation_tags example_relation_10)"
    by (simp add: area_predicate_def example_relation_10_def)
  have e: "eligible_ways example_relation_10 = [1, 2]"
    by (simp add: eligible_ways_def eligible_def example_relation_10_def)
  have ret: "snd (main example_env ''oat_create_areas'' [] [''in.osm'']) = returned exit_code_ok"
    by code_simp
  have T: "?T = ?xs @ to_assembler_relation (relation_id example_relation_10) [located_way_1, located_way_2] # ?ys"
    by code_simp
  have bits: "entity_bits (location_index_type locals_init) = {way, node}"
    by (auto simp: entity_bits_def locals_init_def)
  have hw: "handled_ways ?xs = [located_way_1, located_way_2]"
    by simp
  have fl: "example_file = ?before @ a_way example_way_2 # ?after"
    by (simp add: example_file_def)
  have v: "located_way_2 \<in> set (handled_ways ?T)"
    by code_simp
  have vid: "way_id located_way_2 = way_id example_way_2"
    by (simp add: located_way_2_def example_way_2_def)
  have ws: "set (eligible_ways example_relation_10) \<subseteq> way_id ` set (ways_of example_file)"
    by code_simp
  note inst = relation_dispatched_once [OF h1 h2 h3 h4 h5 h6 h7, of "''oat_create_areas''"]
  from inst ret e ws have c: "count_list (relation_dispatches ?T) (relation_id example_relation_10) = 1"
    by simp
  have rid: "relation_id example_relation_10 = 10"
    by (simp add: example_relation_10_def)
  from c rid have c': "count_list (relation_dispatches ?T) 10 = 1"
    by simp
  from inst T have t: "reader_events ?xs =
      [Reader ''in.osm'' {relation}, close_reader, Reader ''in.osm'' (entity_bits (location_index_type locals_init))] \<and>
     way_id (last (handled_ways ?xs)) \<in> set (eligible_ways example_relation_10)"
    by blast
  from t bits have re: "reader_events ?xs = [Reader ''in.osm'' {relation}, close_reader, Reader ''in.osm'' {way, node}]"
    by simp
  from t hw have last: "way_id located_way_2 \<in> set (eligible_ways example_relation_10)"
    by simp
  from inst fl v vid have g: "located_way_2 = located (location_index_type locals_init) ?before example_way_2"
    by blast
  from h1 h2 h3 h4 h5 h6 h7 e ret T c' re hw last fl v vid g show ?thesis
    by blast
qed

text \<open>
  The claim as stated has every matching relation dispatched exactly once, after all its
  member ways. The relation 11 of the example file matches the predicate and has one
  eligible member way, which is not in the file: the run returns and has never
  dispatched it. Without unique ids the tracker miscounts: on the file with the way 1
  twice, the relation 10 is dispatched at the second way 1 although its member way 2 has
  never streamed past; on the file with two relations of the id 10, both are dispatched
  at the way 1, the second without its only member way.
\<close>

theorem incomplete_relation_counterexample:
  "example_relation_11 \<in> set (relations_of example_file) \<and>
   area_predicate (relation_tags example_relation_11) \<and>
   relation_id example_relation_11 = 11 \<and>
   eligible_ways example_relation_11 = [3] \<and>
   snd (main example_env ''oat_create_areas'' [] [''in.osm'']) = returned exit_code_ok \<and>
   count_list (relation_dispatches (fst (main example_env ''oat_create_areas'' [] [''in.osm'']))) 11 = 0 \<and>
   open_file repeated_way_env ''in.osm'' =
     Inr [a_way example_way_1, a_way example_way_1, a_relation example_relation_10] \<and>
   eligible_ways example_relation_10 = [1, 2] \<and>
   map way_id (handled_ways (fst (main repeated_way_env ''oat_create_areas'' [] [''in.osm'']))) = [1, 1] \<and>
   relation_dispatches (fst (main repeated_way_env ''oat_create_areas'' [] [''in.osm''])) = [10] \<and>
   open_file repeated_relation_env ''in.osm'' =
     Inr [a_way example_way_1,
          a_relation (example_relation_10\<lparr>relation_members :=
            [\<lparr>member_ref = 1, member_type = way, member_role = ''outer''\<rparr>]\<rparr>),
          a_relation (example_relation_10\<lparr>relation_members :=
            [\<lparr>member_ref = 2, member_type = way, member_role = ''outer''\<rparr>]\<rparr>)] \<and>
   map way_id (handled_ways (fst (main repeated_relation_env ''oat_create_areas'' [] [''in.osm'']))) = [1] \<and>
   relation_dispatches (fst (main repeated_relation_env ''oat_create_areas'' [] [''in.osm''])) = [10, 10]"
proof -
  have a: "example_relation_11 \<in> set (relations_of example_file)"
    by (simp add: example_file_def)
  have b: "area_predicate (relation_tags example_relation_11)"
    by (simp add: area_predicate_def example_relation_11_def)
  have c: "relation_id example_relation_11 = 11"
    by (simp add: example_relation_11_def)
  have d: "eligible_ways example_relation_11 = [3]"
    by (simp add: eligible_ways_def eligible_def example_relation_11_def)
  have e: "snd (main example_env ''oat_create_areas'' [] [''in.osm'']) = returned exit_code_ok"
    by code_simp
  have f: "count_list (relation_dispatches (fst (main example_env ''oat_create_areas'' [] [''in.osm'']))) 11 = 0"
    by code_simp
  have g: "open_file repeated_way_env ''in.osm'' =
     Inr [a_way example_way_1, a_way example_way_1, a_relation example_relation_10]"
    by (simp add: repeated_way_env_def)
  have h: "eligible_ways example_relation_10 = [1, 2]"
    by (simp add: eligible_ways_def eligible_def example_relation_10_def)
  have i: "map way_id (handled_ways (fst (main repeated_way_env ''oat_create_areas'' [] [''in.osm'']))) = [1, 1]"
    by code_simp
  have j: "relation_dispatches (fst (main repeated_way_env ''oat_create_areas'' [] [''in.osm''])) = [10]"
    by code_simp
  have k: "open_file repeated_relation_env ''in.osm'' =
     Inr [a_way example_way_1,
          a_relation (example_relation_10\<lparr>relation_members :=
            [\<lparr>member_ref = 1, member_type = way, member_role = ''outer''\<rparr>]\<rparr>),
          a_relation (example_relation_10\<lparr>relation_members :=
            [\<lparr>member_ref = 2, member_type = way, member_role = ''outer''\<rparr>]\<rparr>)]"
    by (simp add: repeated_relation_env_def)
  have l: "map way_id (handled_ways (fst (main repeated_relation_env ''oat_create_areas'' [] [''in.osm'']))) = [1]"
    by code_simp
  have m: "relation_dispatches (fst (main repeated_relation_env ''oat_create_areas'' [] [''in.osm''])) = [10, 10]"
    by code_simp
  from a b c d e f g h i j k l m show ?thesis by blast
qed

end
